(* ===== verification/Prelude.thy ===== *)
theory Prelude
  imports Main "HOL-Library.Word"
begin

unbundle bit_operations_syntax

text \<open>
  The prelude of the development: the types every component shares (bytes, ports, errors),
  the conversions between Go strings and byte slices, the big-endian and little-endian codecs
  of \<^verbatim>\<open>encoding/binary\<close>, XOR masking, and the collections of simplification rules the
  components add to.

  A Go \<^verbatim>\<open>string\<close> and a Go \<^verbatim>\<open>[]byte\<close> are both byte sequences. Text is modelled as
  \<open>string\<close> (a \<open>char\<close> is one byte) and raw data as \<open>byte list\<close>.
\<close>

named_theorems codec_simps \<open>round trips of byte codecs\<close>
named_theorems io_simps \<open>evaluation rules of reads and writes\<close>
named_theorems addr_simps \<open>evaluation rules of host, port and address operations\<close>

type_synonym byte = "8 word"
type_synonym port = "16 word"
type_synonym u32 = "32 word"
type_synonym u64 = "64 word"

text \<open>Error values: the sentinel errors the code compares with, and errors built by
  \<^verbatim>\<open>fmt.Errorf\<close>, of which only the text is observable.\<close>

datatype go_error =
    EOF
  | UnexpectedEOF
  | ErrClosed
  | ErrClosedPipe
  | Errorf string

subsection \<open>Strings and bytes\<close>

definition bytes_of :: "string \<Rightarrow> byte list" where
  "bytes_of s = map (\<lambda>c. of_nat (of_char c)) s"

definition string_of :: "byte list \<Rightarrow> string" where
  "string_of bs = map (\<lambda>b. char_of (unat b)) bs"

subsection \<open>encoding/binary\<close>

text \<open>\<open>be_enc n k\<close> writes the low \<open>n\<close> bytes of \<open>k\<close>, most significant first;
  \<open>be_dec\<close> reads a whole byte list.\<close>

primrec be_enc :: "nat \<Rightarrow> nat \<Rightarrow> byte list" where
  "be_enc 0 k = []"
| "be_enc (Suc n) k = of_nat (k div 256 ^ n) # be_enc n k"

primrec be_acc :: "byte list \<Rightarrow> nat \<Rightarrow> nat" where
  "be_acc [] a = a"
| "be_acc (b # bs) a = be_acc bs (a * 256 + unat b)"

definition be_dec :: "byte list \<Rightarrow> nat" where
  "be_dec bs = be_acc bs 0"

primrec le_enc :: "nat \<Rightarrow> nat \<Rightarrow> byte list" where
  "le_enc 0 k = []"
| "le_enc (Suc n) k = of_nat k # le_enc n (k div 256)"

primrec le_dec :: "byte list \<Rightarrow> nat" where
  "le_dec [] = 0"
| "le_dec (b # bs) = unat b + 256 * le_dec bs"

definition put_port :: "port \<Rightarrow> byte list" where
  "put_port p = be_enc 2 (unat p)"

definition get_port :: "byte list \<Rightarrow> port" where
  "get_port bs = of_nat (be_dec bs)"

subsection \<open>XOR masking\<close>

text \<open>\<open>xor_mask i key bs\<close> is \<^verbatim>\<open>payload[j] ^= key[j%4]\<close>, started at index \<open>i\<close>.\<close>

primrec xor_mask :: "nat \<Rightarrow> byte list \<Rightarrow> byte list \<Rightarrow> byte list" where
  "xor_mask i key [] = []"
| "xor_mask i key (b # bs) = (b XOR key ! (i mod 4)) # xor_mask (Suc i) key bs"

subsection \<open>Lemmas\<close>

lemma unat_byte_less [simp]: "unat (b :: byte) < 256"
  using unsigned_less [of b] by simp

lemma bytes_of_Nil [simp]: "bytes_of [] = []"
  and bytes_of_Cons: "bytes_of (c # s) = of_nat (of_char c) # bytes_of s"
  and length_bytes_of [simp]: "length (bytes_of s) = length s"
  and bytes_of_append [simp]: "bytes_of (s @ t) = bytes_of s @ bytes_of t"
  by (simp_all add: bytes_of_def)

lemma length_string_of [simp]: "length (string_of bs) = length bs"
  and string_of_append [simp]: "string_of (as @ bs) = string_of as @ string_of bs"
  by (simp_all add: string_of_def)

lemma char_of_of_nat_byte: "char_of (unat (of_nat (of_char c) :: byte)) = c"
  by (simp add: unat_of_nat)

lemma string_of_bytes_of [codec_simps, simp]: "string_of (bytes_of s) = s"
  by (simp add: string_of_def bytes_of_def char_of_of_nat_byte o_def)

lemma bytes_of_string_of [codec_simps, simp]: "bytes_of (string_of bs) = bs"
  by (simp add: string_of_def bytes_of_def o_def)

lemma bytes_of_inject [simp]: "bytes_of s = bytes_of t \<longleftrightarrow> s = t"
  by (metis string_of_bytes_of)

lemma length_be_enc [simp]: "length (be_enc n k) = n"
  by (induction n) simp_all

lemma length_le_enc [simp]: "length (le_enc n k) = n"
  by (induction n arbitrary: k) simp_all

lemma be_acc_be_enc: "be_acc (be_enc n k) a = a * 256 ^ n + k mod 256 ^ n"
proof (induction n arbitrary: a)
  case 0
  then show ?case by simp
next
  case (Suc n)
  have "k mod 256 ^ Suc n = 256 ^ n * (k div 256 ^ n mod 256) + k mod 256 ^ n"
    using mod_mult2_eq [of k "256 ^ n" 256] by (simp add: mult.commute)
  with Suc show ?case
    by (simp add: unat_of_nat algebra_simps)
qed

lemma be_dec_be_enc [codec_simps]: "be_dec (be_enc n k) = k mod 256 ^ n"
  by (simp add: be_dec_def be_acc_be_enc)

lemma be_acc_bound: "be_acc bs a < (a + 1) * 256 ^ length bs"
proof (induction bs arbitrary: a)
  case Nil
  then show ?case by simp
next
  case (Cons b bs)
  have "be_acc bs (a * 256 + unat b) < (a * 256 + unat b + 1) * 256 ^ length bs"
    by (rule Cons.IH)
  also have "\<dots> \<le> ((a + 1) * 256) * 256 ^ length bs"
    using unat_byte_less [of b] by (intro mult_right_mono) (simp_all del: unat_byte_less)
  finally show ?case by (simp add: algebra_simps)
qed

lemma be_dec_bound: "be_dec bs < 256 ^ length bs"
  using be_acc_bound [of bs 0] by (simp add: be_dec_def)

lemma le_dec_le_enc [codec_simps]: "le_dec (le_enc n k) = k mod 256 ^ n"
proof (induction n arbitrary: k)
  case 0
  then show ?case by simp
next
  case (Suc n)
  have "k mod 256 ^ Suc n = 256 * (k div 256 mod 256 ^ n) + k mod 256"
    by (simp add: mod_mult2_eq)
  with Suc show ?case by (simp add: unat_of_nat)
qed

lemma le_dec_bound: "le_dec bs < 256 ^ length bs"
proof (induction bs)
  case (Cons b bs)
  have "unat b < 256" by simp
  with Cons have "unat b + 256 * le_dec bs < 256 * (le_dec bs + 1)" by (simp only: distrib_left)
  also have "\<dots> \<le> 256 * 256 ^ length bs" using Cons by (intro mult_left_mono) simp_all
  finally show ?case by simp
qed simp

lemma length_put_port [simp]: "length (put_port p) = 2"
  by (simp add: put_port_def)

lemma get_put_port [codec_simps, simp]: "get_port (put_port p) = p"
proof -
  have "unat p < 65536" using unsigned_less [of p] by simp
  then show ?thesis by (simp add: get_port_def put_port_def codec_simps)
qed

lemma length_xor_mask [simp]: "length (xor_mask i key bs) = length bs"
  by (induction bs arbitrary: i) simp_all

lemma xor_mask_involution [codec_simps]: "xor_mask i key (xor_mask i key bs) = bs"
  by (induction bs arbitrary: i) (simp_all add: xor.assoc)

lemma xor_mask_zero [codec_simps]: "xor_mask i [0, 0, 0, 0] bs = bs"
proof (induction bs arbitrary: i)
  case (Cons b bs)
  have "[0, 0, 0, 0 :: byte] ! (i mod 4) = 0"
  proof -
    have "i mod 4 < 4" by simp
    then have "i mod 4 \<in> {0, 1, 2, 3}" by auto
    then show ?thesis by auto
  qed
  with Cons show ?case by simp
qed simp

end
