(* ===== verification/Go_IO.thy ===== *)
theory Go_IO
  imports Prelude "HOL-Library.Sublist"
begin

text \<open>
  Byte streams as the code sees them.

  A \<^verbatim>\<open>net.Conn\<close> is modelled by what its peer will send (\<open>inp\<close>, ended by the error \<open>rend\<close>,
  usually \<open>EOF\<close>), by what was written to it (\<open>sent\<close>), and by how many more bytes it accepts
  before a write fails (\<open>limit\<close>, \<open>None\<close> when writes never fail). Writes go through a
  \<^verbatim>\<open>sink\<close>; \<open>bwriter\<close> is \<^verbatim>\<open>bufio.Writer\<close> with its 4096 byte buffer and its sticky error.

  The first group of lemmas is about \<^verbatim>\<open>io.ReadFull\<close>; the second shows that the buffered
  writer is a transparent layer: what is sent plus what is buffered is always the bytes
  accepted so far, whatever the sizes of the single writes.
\<close>

record sink =
  sent :: "byte list"
  limit :: "nat option"
  lerr :: go_error

definition sink_write :: "sink \<Rightarrow> byte list \<Rightarrow> go_error option \<times> sink" where
  "sink_write s p =
     (case limit s of
        None \<Rightarrow> (None, s\<lparr>sent := sent s @ p\<rparr>)
      | Some k \<Rightarrow>
          if length p \<le> k then (None, s\<lparr>sent := sent s @ p, limit := Some (k - length p)\<rparr>)
          else (Some (lerr s), s\<lparr>sent := sent s @ take k p, limit := Some 0\<rparr>))"

record conn =
  inp :: "byte list"
  rend :: go_error
  out :: sink

subsection \<open>io.ReadFull\<close>

text \<open>\<open>read_full n bs e\<close>: \<open>n\<close> bytes off the front of \<open>bs\<close>. With no byte read the error is
  the stream's own; after a partial read an end of file becomes \<open>UnexpectedEOF\<close>.\<close>

definition read_full :: "nat \<Rightarrow> byte list \<Rightarrow> go_error \<Rightarrow> (go_error + byte list) \<times> byte list" where
  "read_full n bs e =
     (if n \<le> length bs then (Inr (take n bs), drop n bs)
      else if bs \<noteq> [] \<and> e = EOF then (Inl UnexpectedEOF, [])
      else (Inl e, []))"

definition ReadFull :: "nat \<Rightarrow> conn \<Rightarrow> (go_error + byte list) \<times> conn" where
  "ReadFull n c = (case read_full n (inp c) (rend c) of (r, bs) \<Rightarrow> (r, c\<lparr>inp := bs\<rparr>))"

definition Write :: "byte list \<Rightarrow> conn \<Rightarrow> (go_error + unit) \<times> conn" where
  "Write p c =
     (case sink_write (out c) p of
        (None, s) \<Rightarrow> (Inr (), c\<lparr>out := s\<rparr>)
      | (Some e, s) \<Rightarrow> (Inl e, c\<lparr>out := s\<rparr>))"

text \<open>\<open>try_io r f\<close> is the idiom \<^verbatim>\<open>if err != nil { return err }\<close> after a call that gave \<open>r\<close>.\<close>

fun try_io :: "(go_error + 'a) \<times> 's \<Rightarrow> ('a \<Rightarrow> 's \<Rightarrow> (go_error + 'b) \<times> 's) \<Rightarrow> (go_error + 'b) \<times> 's" where
  "try_io (Inl e, s) f = (Inl e, s)"
| "try_io (Inr a, s) f = f a s"

subsection \<open>bufio.Writer\<close>

definition bufSize :: nat where
  "bufSize = 4096"

record bwriter =
  bbuf :: "byte list"
  berr :: "go_error option"
  bsink :: sink

definition available :: "bwriter \<Rightarrow> nat" where
  "available b = bufSize - length (bbuf b)"

definition Flush :: "bwriter \<Rightarrow> go_error option \<times> bwriter" where
  "Flush b =
     (case berr b of
        Some e \<Rightarrow> (Some e, b)
      | None \<Rightarrow>
          if bbuf b = [] then (None, b)
          else (case sink_write (bsink b) (bbuf b) of
                  (None, s) \<Rightarrow> (None, b\<lparr>bbuf := [], bsink := s\<rparr>)
                | (Some e, s) \<Rightarrow> (Some e, b\<lparr>berr := Some e, bsink := s\<rparr>)))"

definition WriteByte :: "bwriter \<Rightarrow> byte \<Rightarrow> go_error option \<times> bwriter" where
  "WriteByte b x =
     (case berr b of
        Some e \<Rightarrow> (Some e, b)
      | None \<Rightarrow>
          if available b = 0
          then (case Flush b of
                  (Some e, b') \<Rightarrow> (Some e, b')
                | (None, b') \<Rightarrow> (None, b'\<lparr>bbuf := bbuf b' @ [x]\<rparr>))
          else (None, b\<lparr>bbuf := bbuf b @ [x]\<rparr>))"

text \<open>The loop of \<^verbatim>\<open>bufio.Writer.Write\<close>: fill and flush while the data does not fit, or
  hand it to the sink directly when nothing is buffered.\<close>

function bufWrite :: "bwriter \<Rightarrow> byte list \<Rightarrow> go_error option \<times> bwriter" where
  "bufWrite b p =
     (case berr b of
        Some e \<Rightarrow> (Some e, b)
      | None \<Rightarrow>
          if available b < length p
          then (if bbuf b = []
                then (case sink_write (bsink b) p of
                        (None, s) \<Rightarrow> bufWrite (b\<lparr>bsink := s\<rparr>) []
                      | (Some e, s) \<Rightarrow> (Some e, b\<lparr>berr := Some e, bsink := s\<rparr>))
                else (let n = available b in
                      (case Flush (b\<lparr>bbuf := bbuf b @ take n p\<rparr>) of
                         (Some e, b') \<Rightarrow> (Some e, b')
                       | (None, b') \<Rightarrow> bufWrite (b'\<lparr>bbuf := []\<rparr>) (drop n p))))
          else (None, b\<lparr>bbuf := bbuf b @ p\<rparr>))"
  by pat_completeness auto
termination
  by (relation "measure (\<lambda>(b, p). length p + length (bbuf b))")
     (auto, (metis length_greater_0_conv less_add_same_cancel1 less_imp_diff_less
       diff_le_self le_add1 le_less_trans add_less_cancel_left add.right_neutral)+)

declare bufWrite.simps [simp del]

text \<open>\<open>then_w r f\<close>: go on with \<open>f\<close> when the last write had no error.\<close>

fun then_w :: "go_error option \<times> 's \<Rightarrow> ('s \<Rightarrow> go_error option \<times> 's) \<Rightarrow> go_error option \<times> 's" where
  "then_w (Some e, b) f = (Some e, b)"
| "then_w (None, b) f = f b"

text \<open>All the bytes the writer has accepted.\<close>

definition accepted :: "bwriter \<Rightarrow> byte list" where
  "accepted b = sent (bsink b) @ bbuf b"

text \<open>A writer in good standing: no error so far, the buffer within its size, the sink unlimited.\<close>

definition bw_ok :: "bwriter \<Rightarrow> bool" where
  "bw_ok b \<longleftrightarrow> berr b = None \<and> length (bbuf b) \<le> bufSize \<and> limit (bsink b) = None"

definition fresh_sink :: sink where
  "fresh_sink = \<lparr>sent = [], limit = None, lerr = ErrClosed\<rparr>"

definition new_bwriter :: "sink \<Rightarrow> bwriter" where
  "new_bwriter s = \<lparr>bbuf = [], berr = None, bsink = s\<rparr>"

subsection \<open>Lemmas\<close>

lemma read_full_exact [io_simps]: "length xs = n \<Longrightarrow> read_full n (xs @ ys) e = (Inr xs, ys)"
  by (simp add: read_full_def)

lemma read_full_Inr:
  "read_full n bs e = (Inr xs, ys) \<longleftrightarrow> bs = xs @ ys \<and> length xs = n"
  by (auto simp: read_full_def)

lemma read_full_Inl_rest: "read_full n bs e = (Inl e', ys) \<Longrightarrow> ys = []"
  by (auto simp: read_full_def split: if_splits)

lemma read_full_mono: "snd (read_full n bs e) = drop n bs"
  by (simp add: read_full_def)

lemma ReadFull_exact [io_simps]:
  "inp c = xs @ ys \<Longrightarrow> length xs = n \<Longrightarrow> ReadFull n c = (Inr xs, c\<lparr>inp := ys\<rparr>)"
  by (simp add: ReadFull_def io_simps)

lemma ReadFull_Inr:
  "ReadFull n c = (Inr xs, c') \<longleftrightarrow> (\<exists>ys. inp c = xs @ ys \<and> length xs = n \<and> c' = c\<lparr>inp := ys\<rparr>)"
  by (auto simp: ReadFull_def read_full_Inr read_full_exact split: prod.splits)

lemma Write_ok [io_simps]:
  "limit (out c) = None \<Longrightarrow> Write p c = (Inr (), c\<lparr>out := (out c)\<lparr>sent := sent (out c) @ p\<rparr>\<rparr>)"
  by (simp add: Write_def sink_write_def)

lemma sink_write_ok [io_simps]:
  "limit s = None \<Longrightarrow> sink_write s p = (None, s\<lparr>sent := sent s @ p\<rparr>)"
  by (simp add: sink_write_def)

lemma try_io_Inr:
  "try_io r f = (Inr b, s') \<longleftrightarrow> (\<exists>a s. r = (Inr a, s) \<and> f a s = (Inr b, s'))"
  by (cases r; cases "fst r") auto

lemma then_w_None:
  "then_w r f = (None, b') \<longleftrightarrow> (\<exists>b. r = (None, b) \<and> f b = (None, b'))"
  by (cases r; cases "fst r") auto

lemma bw_ok_new [simp]: "limit s = None \<Longrightarrow> bw_ok (new_bwriter s)"
  and accepted_new [simp]: "accepted (new_bwriter s) = sent s"
  by (simp_all add: bw_ok_def new_bwriter_def accepted_def)

lemma Flush_ok:
  assumes "bw_ok b"
  obtains b' where "Flush b = (None, b')" "bw_ok b'" "bbuf b' = []" "accepted b' = accepted b"
proof -
  from assms have eq: "Flush b = (None, b\<lparr>bbuf := [], bsink := (bsink b)\<lparr>sent := accepted b\<rparr>\<rparr>)"
    by (auto simp: Flush_def bw_ok_def io_simps accepted_def)
  show ?thesis using assms by (intro that [OF eq]) (auto simp: bw_ok_def accepted_def)
qed

lemma WriteByte_ok:
  assumes "bw_ok b"
  obtains b' where "WriteByte b x = (None, b')" "bw_ok b'" "accepted b' = accepted b @ [x]"
proof (cases "available b = 0")
  case True
  obtain b' where b': "Flush b = (None, b')" "bw_ok b'" "bbuf b' = []" "accepted b' = accepted b"
    using assms by (rule Flush_ok)
  with True assms have eq: "WriteByte b x = (None, b'\<lparr>bbuf := [x]\<rparr>)"
    by (simp add: WriteByte_def bw_ok_def)
  show ?thesis using b' by (intro that [OF eq]) (auto simp: bw_ok_def accepted_def bufSize_def)
next
  case False
  with assms have eq: "WriteByte b x = (None, b\<lparr>bbuf := bbuf b @ [x]\<rparr>)"
    by (simp add: WriteByte_def bw_ok_def)
  show ?thesis using False assms
    by (intro that [OF eq]) (auto simp: bw_ok_def accepted_def available_def)
qed

lemma bufWrite_fits:
  "berr b = None \<Longrightarrow> length p \<le> available b \<Longrightarrow> bufWrite b p = (None, b\<lparr>bbuf := bbuf b @ p\<rparr>)"
  by (simp add: bufWrite.simps [of b p])

lemma bufWrite_ok_empty:
  assumes "bw_ok b" "bbuf b = []"
  shows "\<exists>b'. bufWrite b p = (None, b') \<and> bw_ok b' \<and> accepted b' = accepted b @ p"
proof (cases "length p \<le> bufSize")
  case True
  with assms show ?thesis
    by (auto simp: bufWrite_fits available_def bw_ok_def accepted_def)
next
  case False
  with assms have "bufWrite b p = (None, b\<lparr>bsink := (bsink b)\<lparr>sent := sent (bsink b) @ p\<rparr>\<rparr>)"
    by (simp add: bufWrite.simps [of b p] available_def bw_ok_def io_simps bufWrite_fits)
  with assms show ?thesis by (auto simp: bw_ok_def accepted_def)
qed

lemma bufWrite_ok:
  assumes "bw_ok b"
  obtains b' where "bufWrite b p = (None, b')" "bw_ok b'" "accepted b' = accepted b @ p"
proof (cases "length p \<le> available b")
  case True
  with assms have eq: "bufWrite b p = (None, b\<lparr>bbuf := bbuf b @ p\<rparr>)"
    by (simp add: bufWrite_fits bw_ok_def)
  show ?thesis using True assms
    by (intro that [OF eq]) (auto simp: bw_ok_def accepted_def available_def)
next
  case overfull: False
  show ?thesis
  proof (cases "bbuf b = []")
    case True
    with assms that show ?thesis using bufWrite_ok_empty by blast
  next
    case False
    let ?n = "available b"
    let ?b = "b\<lparr>bbuf := bbuf b @ take ?n p\<rparr>"
    have "bw_ok ?b" using assms by (auto simp: bw_ok_def available_def)
    then obtain b1 where b1: "Flush ?b = (None, b1)" "bw_ok b1" "bbuf b1 = []"
        "accepted b1 = accepted ?b"
      by (rule Flush_ok)
    then have eq: "b1\<lparr>bbuf := []\<rparr> = b1" by (cases b1) simp
    obtain b2 where b2: "bufWrite b1 (drop ?n p) = (None, b2)" "bw_ok b2"
        "accepted b2 = accepted b1 @ drop ?n p"
      using bufWrite_ok_empty [OF b1(2,3)] by blast
    have "bufWrite (b1\<lparr>bbuf := []\<rparr>) (drop ?n p) = (None, b2)"
      using b2(1) by (simp only: eq)
    then have "bufWrite b p = (None, b2)"
      using assms overfull False b1(1)
      by (simp add: bufWrite.simps [of b p] bw_ok_def Let_def)
    moreover have "accepted b2 = accepted b @ p"
      using b1 b2 by (simp add: accepted_def)
    ultimately show ?thesis using b2 that by blast
  qed
qed

subsection \<open>Writers whose sink may fail\<close>

text \<open>\<open>extends b r xs\<close>: a write of \<open>xs\<close> on \<open>b\<close> that ended in \<open>r\<close> either took all of \<open>xs\<close>, or
  left an error behind and put no more than a prefix of it on the wire.\<close>

definition extends :: "bwriter \<Rightarrow> go_error option \<times> bwriter \<Rightarrow> byte list \<Rightarrow> bool" where
  "extends b r xs =
     (case r of
        (None, b') \<Rightarrow> berr b' = None \<and> accepted b' = accepted b @ xs
      | (Some e, b') \<Rightarrow> berr b' = Some e \<and> prefix (sent (bsink b')) (accepted b @ xs))"

lemma sink_write_cases:
  obtains s' where "sink_write s p = (None, s')" "sent s' = sent s @ p"
  | e s' where "sink_write s p = (Some e, s')" "prefix (sent s') (sent s @ p)"
  by (cases "limit s"; cases "length p \<le> the (limit s)") (auto simp: sink_write_def take_is_prefix)

lemma Flush_extends:
  assumes "berr b = None"
  shows "extends b (Flush b) []" "Flush b = (None, b') \<Longrightarrow> bbuf b' = []"
  using assms
  by (cases "bsink b" "bbuf b" rule: sink_write_cases,
      auto simp: Flush_def extends_def accepted_def split: prod.splits option.splits if_splits)+

lemma WriteByte_extends:
  assumes "berr b = None"
  shows "extends b (WriteByte b x) [x]"
proof (cases "Flush b")
  case (Pair r b')
  with Flush_extends [OF assms] assms show ?thesis
    by (cases r) (auto simp: WriteByte_def extends_def accepted_def intro: prefix_order.trans)
qed

lemma bufWrite_extends:
  assumes "berr b = None"
  shows "extends b (bufWrite b p) p"
  using assms
proof (induction b p rule: bufWrite.induct)
  case (1 b p)
  show ?case
  proof (cases "available b < length p")
    case False
    with "1.prems" show ?thesis
      by (simp add: bufWrite.simps [of b p] extends_def accepted_def)
  next
    case over: True
    show ?thesis
    proof (cases "bbuf b = []")
      case True
      show ?thesis
      proof (cases "bsink b" p rule: sink_write_cases)
        case (1 s')
        with True over \<open>berr b = None\<close> show ?thesis
          by (simp add: bufWrite.simps [of b p] bufWrite_fits extends_def accepted_def)
      next
        case (2 e s')
        with True over \<open>berr b = None\<close> show ?thesis
          by (simp add: bufWrite.simps [of b p] extends_def accepted_def)
      qed
    next
      case False
      let ?n = "available b"
      let ?b = "b\<lparr>bbuf := bbuf b @ take ?n p\<rparr>"
      obtain r b1 where f: "Flush ?b = (r, b1)" by (cases "Flush ?b")
      have ok: "berr ?b = None" using "1.prems" by simp
      have e: "extends ?b (r, b1) []" using Flush_extends(1) [OF ok] f by simp
      show ?thesis
      proof (cases r)
        case (Some e')
        with e f False over "1.prems" show ?thesis
          by (auto simp: bufWrite.simps [of b p] extends_def accepted_def Let_def prefix_def)
            (metis append_assoc append_take_drop_id)
      next
        case None
        with f have b1: "bbuf b1 = []" using Flush_extends(2) [OF ok] by simp
        have "extends (b1\<lparr>bbuf := []\<rparr>) (bufWrite (b1\<lparr>bbuf := []\<rparr>) (drop ?n p)) (drop ?n p)"
          using "1.IH"(2) [OF "1.prems" over False refl f [symmetric]] None e
          by (simp add: extends_def)
        moreover have "bufWrite b p = bufWrite (b1\<lparr>bbuf := []\<rparr>) (drop ?n p)"
          using None f False over "1.prems" by (simp add: bufWrite.simps [of b p] Let_def)
        moreover have "accepted (b1\<lparr>bbuf := []\<rparr>) @ drop ?n p = accepted b @ p"
          using e None b1 by (simp add: extends_def accepted_def)
        ultimately show ?thesis by (simp add: extends_def split: prod.splits option.splits)
      qed
    qed
  qed
qed

lemma sticky_error:
  assumes "berr b = Some e"
  shows "WriteByte b x = (Some e, b)" "bufWrite b p = (Some e, b)" "Flush b = (Some e, b)"
  using assms by (simp_all add: WriteByte_def bufWrite.simps [of b p] Flush_def)

end
