(* ===== verification/Wst_Conn.thy ===== *)
theory Wst_Conn
  imports Go_IO
begin

text \<open>
  The WebSocket connection of \<^verbatim>\<open>pkg/wst/connection.go\<close>: message types, the frame writers
  \<open>WriteMessage\<close> and \<open>WriteControl\<close>, the frame reader \<open>ReadMessage\<close> with its ping, pong and
  close handling, and \<open>FormatCloseMessage\<close>.

  \<open>frame_bytes\<close> is the reference encoding. The lemmas show that the buffered writer puts exactly
  this encoding on the wire, that the reader inverts it for both masking modes and for any mask
  key, which inputs the reader refuses, and that it consumes input on every round of its loop.
\<close>

subsection \<open>Message types\<close>

definition TextMessage :: nat where "TextMessage = 1"
definition BinaryMessage :: nat where "BinaryMessage = 2"
definition CloseMessage :: nat where "CloseMessage = 8"
definition PingMessage :: nat where "PingMessage = 9"
definition PongMessage :: nat where "PongMessage = 10"
definition CloseNormalClosure :: nat where "CloseNormalClosure = 1000"

lemmas message_type_defs =
  TextMessage_def BinaryMessage_def CloseMessage_def PingMessage_def PongMessage_def

text \<open>The reader's payload bound: 10 MB.\<close>

definition maxPayload :: int where
  "maxPayload = 1024 * 1024 * 10"

subsection \<open>The connection\<close>

text \<open>The ping handlers the program installs: the default one answers with \<open>WriteControl\<close> and
  ignores errors of a closed connection; client and server replace it by one that answers with
  \<open>WriteMessage\<close>. The pong handler is always the default, which does nothing.\<close>

datatype ping_handler = DefaultPing | ReplyPing

record Conn =
  rd :: "byte list"
  rdend :: go_error
  bufw :: bwriter
  masking :: bool
  pingHandler :: ping_handler

definition NewConnWithReader :: "conn \<Rightarrow> bool \<Rightarrow> byte list \<Rightarrow> Conn" where
  "NewConnWithReader c m br =
     \<lparr>rd = br @ inp c, rdend = rend c, bufw = new_bwriter (out c), masking = m,
      pingHandler = DefaultPing\<rparr>"

definition NewConn :: "conn \<Rightarrow> bool \<Rightarrow> Conn" where
  "NewConn c m = NewConnWithReader c m []"

definition SetPingHandler :: "Conn \<Rightarrow> ping_handler option \<Rightarrow> Conn" where
  "SetPingHandler c h = c\<lparr>pingHandler := (case h of None \<Rightarrow> DefaultPing | Some h' \<Rightarrow> h')\<rparr>"

definition on_bufw :: "(bwriter \<Rightarrow> go_error option \<times> bwriter) \<Rightarrow> Conn \<Rightarrow> go_error option \<times> Conn" where
  "on_bufw f c = (case f (bufw c) of (r, b) \<Rightarrow> (r, c\<lparr>bufw := b\<rparr>))"

definition maskBit :: "Conn \<Rightarrow> byte" where
  "maskBit c = (if masking c then 0x80 else 0)"

subsection \<open>Writing\<close>

definition WriteControl :: "Conn \<Rightarrow> nat \<Rightarrow> byte list \<Rightarrow> go_error option \<times> Conn" where
  "WriteControl c messageType data =
     then_w (on_bufw (\<lambda>b. WriteByte b (0x80 OR of_nat messageType)) c) (\<lambda>c.
       if length data > 125 then (Some (Errorf ''control frame length > 125''), c)
       else then_w (on_bufw (\<lambda>b. WriteByte b (maskBit c OR of_nat (length data))) c) (\<lambda>c.
         then_w (if masking c then on_bufw (\<lambda>b. bufWrite b [0, 0, 0, 0]) c else (None, c)) (\<lambda>c.
           then_w (on_bufw (\<lambda>b. bufWrite b data) c) (\<lambda>c.
             on_bufw Flush c))))"

definition write_length :: "Conn \<Rightarrow> nat \<Rightarrow> go_error option \<times> Conn" where
  "write_length c n =
     (if n \<le> 125 then on_bufw (\<lambda>b. WriteByte b (maskBit c OR of_nat n)) c
      else if n \<le> 65535 then
        then_w (on_bufw (\<lambda>b. WriteByte b (maskBit c OR 126)) c)
          (\<lambda>c. on_bufw (\<lambda>b. bufWrite b (be_enc 2 n)) c)
      else
        then_w (on_bufw (\<lambda>b. WriteByte b (maskBit c OR 127)) c)
          (\<lambda>c. on_bufw (\<lambda>b. bufWrite b (be_enc 8 n)) c))"

definition write_payload :: "Conn \<Rightarrow> byte list \<Rightarrow> go_error option \<times> Conn" where
  "write_payload c data =
     (if masking c
      then then_w (on_bufw (\<lambda>b. bufWrite b [0, 0, 0, 0]) c) (\<lambda>c. on_bufw (\<lambda>b. bufWrite b data) c)
      else on_bufw (\<lambda>b. bufWrite b data) c)"

definition WriteMessage :: "Conn \<Rightarrow> nat \<Rightarrow> byte list \<Rightarrow> go_error option \<times> Conn" where
  "WriteMessage c messageType data =
     then_w (on_bufw (\<lambda>b. WriteByte b (0x80 OR of_nat messageType)) c) (\<lambda>c.
       then_w (write_length c (length data)) (\<lambda>c.
         then_w (write_payload c data) (\<lambda>c. on_bufw Flush c)))"

definition FormatCloseMessage :: "nat \<Rightarrow> string \<Rightarrow> byte list" where
  "FormatCloseMessage closeCode text = be_enc 2 closeCode @ bytes_of text"

subsection \<open>Reading\<close>

text \<open>One frame: header, extended length, mask key, bound check, payload, unmasking.\<close>

definition rd_full :: "nat \<Rightarrow> Conn \<Rightarrow> (go_error + byte list) \<times> Conn" where
  "rd_full n c = (case read_full n (rd c) (rdend c) of (r, bs) \<Rightarrow> (r, c\<lparr>rd := bs\<rparr>))"

definition rd_byte :: "Conn \<Rightarrow> (go_error + byte) \<times> Conn" where
  "rd_byte c = (case rd c of [] \<Rightarrow> (Inl (rdend c), c) | b # bs \<Rightarrow> (Inr b, c\<lparr>rd := bs\<rparr>))"

definition read_length :: "byte \<Rightarrow> Conn \<Rightarrow> (go_error + int) \<times> Conn" where
  "read_length b1 c =
     (let length = uint (b1 AND 0x7F) in
      if length = 126 then
        try_io (rd_full 2 c) (\<lambda>bs c. (Inr (uint (of_nat (be_dec bs) :: 16 word)), c))
      else if length = 127 then
        try_io (rd_full 8 c) (\<lambda>bs c. (Inr (sint (of_nat (be_dec bs) :: u64)), c))
      else (Inr length, c))"

definition read_mask :: "byte \<Rightarrow> Conn \<Rightarrow> (go_error + byte list) \<times> Conn" where
  "read_mask b1 c = (if b1 AND 0x80 \<noteq> 0 then rd_full 4 c else (Inr [], c))"

definition unmask :: "byte \<Rightarrow> byte list \<Rightarrow> byte list \<Rightarrow> byte list" where
  "unmask b1 maskKey payload = (if b1 AND 0x80 \<noteq> 0 then xor_mask 0 maskKey payload else payload)"

definition readFrame :: "Conn \<Rightarrow> (go_error + nat \<times> byte list) \<times> Conn" where
  "readFrame c =
     try_io (rd_byte c) (\<lambda>b0 c.
     let opcode = unat (b0 AND 0x0F) in
     try_io (rd_byte c) (\<lambda>b1 c.
     try_io (read_length b1 c) (\<lambda>length c.
     try_io (read_mask b1 c) (\<lambda>maskKey c.
     if length < 0 \<or> length > maxPayload
     then (Inl (Errorf ''payload length is out of bounds''), c)
     else try_io (rd_full (nat length) c) (\<lambda>payload c.
       (Inr (opcode, unmask b1 maskKey payload), c))))))"

definition callPingHandler :: "Conn \<Rightarrow> byte list \<Rightarrow> go_error option \<times> Conn" where
  "callPingHandler c payload =
     (case pingHandler c of
        DefaultPing \<Rightarrow>
          (case WriteControl c PongMessage payload of
             (Some e, c') \<Rightarrow>
               if e = ErrClosedPipe \<or> e = ErrClosed then (None, c') else (Some e, c')
           | (None, c') \<Rightarrow> (None, c'))
      | ReplyPing \<Rightarrow> WriteMessage c PongMessage payload)"

lemma on_bufw_frame [simp]:
  "on_bufw f c = (r, c') \<Longrightarrow>
     rd c' = rd c \<and> rdend c' = rdend c \<and> masking c' = masking c \<and> pingHandler c' = pingHandler c"
  by (auto simp: on_bufw_def split: prod.splits)

lemma then_w_cases:
  assumes "then_w r f = (x, c')"
  obtains e where "r = (Some e, c')" "x = Some e" | c1 where "r = (None, c1)" "f c1 = (x, c')"
  using assms by (cases r; cases "fst r") auto

lemma write_length_frame:
  "write_length c n = (r, c') \<Longrightarrow>
     rd c' = rd c \<and> rdend c' = rdend c \<and> masking c' = masking c \<and> pingHandler c' = pingHandler c"
  by (auto simp: write_length_def split: if_splits elim!: then_w_cases dest!: on_bufw_frame)

lemma write_payload_frame:
  "write_payload c d = (r, c') \<Longrightarrow>
     rd c' = rd c \<and> rdend c' = rdend c \<and> masking c' = masking c \<and> pingHandler c' = pingHandler c"
  by (auto simp: write_payload_def split: if_splits elim!: then_w_cases dest!: on_bufw_frame)

lemma WriteMessage_frame:
  "WriteMessage c t d = (r, c') \<Longrightarrow>
     rd c' = rd c \<and> rdend c' = rdend c \<and> masking c' = masking c \<and> pingHandler c' = pingHandler c"
  unfolding WriteMessage_def
  by (auto elim!: then_w_cases dest!: on_bufw_frame write_length_frame write_payload_frame)

lemma WriteControl_frame:
  "WriteControl c t d = (r, c') \<Longrightarrow>
     rd c' = rd c \<and> rdend c' = rdend c \<and> masking c' = masking c \<and> pingHandler c' = pingHandler c"
  unfolding WriteControl_def
  by (auto split: if_splits elim!: then_w_cases dest!: on_bufw_frame)

lemma callPingHandler_frame:
  "callPingHandler c p = (r, c') \<Longrightarrow>
     rd c' = rd c \<and> rdend c' = rdend c \<and> masking c' = masking c \<and> pingHandler c' = pingHandler c"
  by (auto simp: callPingHandler_def split: ping_handler.splits prod.splits option.splits if_splits
      dest!: WriteControl_frame WriteMessage_frame)

lemma rd_byte_Inr: "rd_byte c = (Inr b, c') \<longleftrightarrow> (\<exists>bs. rd c = b # bs \<and> c' = c\<lparr>rd := bs\<rparr>)"
  by (auto simp: rd_byte_def split: list.splits)

lemma rd_full_Inr:
  "rd_full n c = (Inr xs, c') \<longleftrightarrow> (\<exists>ys. rd c = xs @ ys \<and> length xs = n \<and> c' = c\<lparr>rd := ys\<rparr>)"
  by (auto simp: rd_full_def read_full_Inr read_full_exact split: prod.splits)

lemma read_length_Inr:
  "read_length b1 c = (Inr n, c') \<Longrightarrow> \<exists>xs. rd c = xs @ rd c' \<and> c' = c\<lparr>rd := rd c'\<rparr>"
  by (auto simp: read_length_def try_io_Inr rd_full_Inr Let_def split: if_splits)

lemma read_mask_Inr:
  "read_mask b1 c = (Inr k, c') \<Longrightarrow> \<exists>xs. rd c = xs @ rd c' \<and> c' = c\<lparr>rd := rd c'\<rparr>"
  by (auto simp: read_mask_def rd_full_Inr split: if_splits)

lemma length_unmask [simp]: "length (unmask b1 k p) = length p"
  by (simp add: unmask_def)

text \<open>A frame that is read consumes at least its two header bytes and touches nothing else.\<close>

lemma unat_nibble: "unat (b AND 0x0F :: byte) < 16"
proof -
  have "b AND 0x0F \<le> (0x0F :: byte)" by (rule word_and_le1)
  then have "unat (b AND 0x0F) \<le> unat (0x0F :: byte)" by (simp only: word_le_nat_alt)
  then show ?thesis by simp
qed

lemma readFrame_consumes:
  assumes "readFrame c = (Inr (op, p), c')"
  obtains hd where "rd c = hd @ rd c'" "length p + 2 \<le> length hd" "c' = c\<lparr>rd := rd c'\<rparr>"
    "op < 16" "int (length p) \<le> maxPayload"
proof -
  from assms obtain b0 b1 rest n c1 key c2 xs where
    h: "rd c = b0 # b1 # rest" and
    n: "read_length b1 (c\<lparr>rd := rest\<rparr>) = (Inr n, c1)" and
    k: "read_mask b1 c1 = (Inr key, c2)" and
    bnd: "\<not> (n < 0 \<or> n > maxPayload)" and
    x: "rd_full (nat n) c2 = (Inr xs, c')" and
    op: "op = unat (b0 AND 0x0F)" and
    p: "p = unmask b1 key xs"
    by (auto simp: readFrame_def try_io_Inr rd_byte_Inr Let_def split: if_splits)
  from read_length_Inr [OF n] obtain l where l: "rest = l @ rd c1" "c1 = c\<lparr>rd := rd c1\<rparr>" by auto
  from read_mask_Inr [OF k] obtain key' where
    key': "rd c1 = key' @ rd c2" "c2 = c1\<lparr>rd := rd c2\<rparr>" by auto
  from x have xs: "rd c2 = xs @ rd c'" "c' = c2\<lparr>rd := rd c'\<rparr>" "length xs = nat n"
    by (auto simp: rd_full_Inr)
  show ?thesis
  proof (rule that [of "b0 # b1 # l @ key' @ xs"])
    show "rd c = (b0 # b1 # l @ key' @ xs) @ rd c'" using h l key' xs by simp
    show "c' = c\<lparr>rd := rd c'\<rparr>" using l(2) key'(2) xs(2) by (metis Conn.unfold_congs(1) Conn.select_convs(1) Conn.surjective Conn.update_convs(1))
  qed (use p op bnd xs unat_nibble [of b0] in auto)
qed

text \<open>One round of the loop of \<open>ReadMessage\<close>: a control frame was handled and the loop goes on,
  a message is returned, or the call fails with the type and payload it returns beside the error.\<close>

datatype read_event = Skip | Got nat "byte list" | Fail nat "byte list" go_error

definition readStep :: "Conn \<Rightarrow> read_event \<times> Conn" where
  "readStep c =
     (case readFrame c of
        (Inl e, c1) \<Rightarrow> (Fail 0 [] e, c1)
      | (Inr (opcode, payload), c1) \<Rightarrow>
          if opcode = PingMessage then
            (case callPingHandler c1 payload of
               (Some e, c2) \<Rightarrow> (Fail PingMessage payload e, c2)
             | (None, c2) \<Rightarrow> (Skip, c2))
          else if opcode = PongMessage then (Skip, c1)
          else if opcode = CloseMessage then (Fail CloseMessage [] EOF, c1)
          else (Got opcode payload, c1))"

lemma readStep_Skip:
  assumes "readStep c = (Skip, c')"
  obtains hd where "rd c = hd @ rd c'" "2 \<le> length hd"
proof -
  from assms obtain op pl c1 where f: "readFrame c = (Inr (op, pl), c1)" and r: "rd c' = rd c1"
    using callPingHandler_frame
    by (auto simp: readStep_def split: prod.splits sum.splits if_splits option.splits)
  from f show ?thesis by (rule readFrame_consumes) (rule that, simp add: r, linarith)
qed

lemma readStep_Got:
  assumes "readStep c = (Got t p, c')"
  shows "readFrame c = (Inr (t, p), c')" "t \<notin> {CloseMessage, PingMessage, PongMessage}"
  using assms by (auto simp: readStep_def split: prod.splits sum.splits if_splits option.splits)

function ReadMessage :: "Conn \<Rightarrow> (nat \<times> byte list \<times> go_error option) \<times> Conn" where
  "ReadMessage c =
     (case readStep c of
        (Skip, c1) \<Rightarrow> ReadMessage c1
      | (Got t p, c1) \<Rightarrow> ((t, p, None), c1)
      | (Fail t p e, c1) \<Rightarrow> ((t, p, Some e), c1))"
  by pat_completeness auto
termination
  by (relation "measure (\<lambda>c. length (rd c))") (auto elim!: readStep_Skip [OF sym])

declare ReadMessage.simps [simp del]

lemma ReadMessage_Skip: "readStep c = (Skip, c') \<Longrightarrow> ReadMessage c = ReadMessage c'"
  and ReadMessage_Got: "readStep c = (Got t p, c') \<Longrightarrow> ReadMessage c = ((t, p, None), c')"
  and ReadMessage_Fail: "readStep c = (Fail t p e, c') \<Longrightarrow> ReadMessage c = ((t, p, Some e), c')"
  by (simp_all add: ReadMessage.simps [of c])

subsection \<open>The reference encoding\<close>

definition length_bytes :: "bool \<Rightarrow> nat \<Rightarrow> byte list" where
  "length_bytes m n =
     (let mb = (if m then 0x80 else 0) in
      if n \<le> 125 then [mb OR of_nat n]
      else if n \<le> 65535 then (mb OR 126) # be_enc 2 n
      else (mb OR 127) # be_enc 8 n)"

definition frame_bytes :: "bool \<Rightarrow> nat \<Rightarrow> byte list \<Rightarrow> byte list" where
  "frame_bytes m t d =
     (0x80 OR of_nat t) # length_bytes m (length d) @ (if m then [0, 0, 0, 0] else []) @ d"

text \<open>\<open>emits r c xs\<close>: the write \<open>r\<close>, started on \<open>c\<close>, succeeded and appended \<open>xs\<close>.\<close>

definition emits :: "go_error option \<times> Conn \<Rightarrow> Conn \<Rightarrow> byte list \<Rightarrow> bool" where
  "emits r c xs \<longleftrightarrow>
     (\<exists>b. r = (None, c\<lparr>bufw := b\<rparr>) \<and> bw_ok b \<and> accepted b = accepted (bufw c) @ xs)"

lemma emits_then:
  assumes "emits r c xs"
    and "\<And>b. bw_ok b \<Longrightarrow> emits (f (c\<lparr>bufw := b\<rparr>)) (c\<lparr>bufw := b\<rparr>) ys"
  shows "emits (then_w r f) c (xs @ ys)"
  using assms unfolding emits_def by fastforce

lemma emits_WriteByte:
  "bw_ok (bufw c) \<Longrightarrow> emits (on_bufw (\<lambda>b. WriteByte b x) c) c [x]"
  by (rule WriteByte_ok [of "bufw c" x]) (auto simp: emits_def on_bufw_def)

lemma emits_bufWrite:
  "bw_ok (bufw c) \<Longrightarrow> emits (on_bufw (\<lambda>b. bufWrite b p) c) c p"
  by (rule bufWrite_ok [of "bufw c" p]) (auto simp: emits_def on_bufw_def)

lemma emits_None: "bw_ok (bufw c) \<Longrightarrow> emits (None, c) c []"
  unfolding emits_def by (intro exI [of _ "bufw c"]) simp

lemma maskBit_bufw [simp]: "maskBit (c\<lparr>bufw := b\<rparr>) = maskBit c"
  by (simp add: maskBit_def)

lemma emits_write_length:
  assumes "bw_ok (bufw c)"
  shows "emits (write_length c n) c (length_bytes (masking c) n)"
proof -
  have two: "emits (then_w (on_bufw (\<lambda>b. WriteByte b x) c) (\<lambda>c. on_bufw (\<lambda>b. bufWrite b ys) c)) c
      ([x] @ ys)" for x ys
    using assms by (intro emits_then emits_WriteByte emits_bufWrite) simp_all
  show ?thesis
    using assms two emits_WriteByte [OF assms]
    by (auto simp: write_length_def length_bytes_def maskBit_def Let_def)
qed

text \<open>A flush at the end moves everything that was emitted onto the wire.\<close>

definition on_wire :: "Conn \<Rightarrow> byte list" where
  "on_wire c = sent (bsink (bufw c))"

lemma emits_Flush:
  assumes "emits r c xs"
  shows "\<exists>b. then_w r (on_bufw Flush) = (None, c\<lparr>bufw := b\<rparr>) \<and> bw_ok b \<and> bbuf b = [] \<and>
    sent (bsink b) = accepted (bufw c) @ xs"
proof -
  from assms obtain b where b: "r = (None, c\<lparr>bufw := b\<rparr>)" "bw_ok b"
      "accepted b = accepted (bufw c) @ xs"
    by (auto simp: emits_def)
  obtain b' where b': "Flush b = (None, b')" "bw_ok b'" "bbuf b' = []" "accepted b' = accepted b"
    using b(2) by (rule Flush_ok)
  then have "sent (bsink b') = accepted b" by (simp add: accepted_def)
  with b b' show ?thesis by (intro exI [of _ b']) (simp add: on_bufw_def)
qed

lemma then_w_assoc: "then_w (then_w r f) g = then_w r (\<lambda>c. then_w (f c) g)"
  by (cases r; cases "fst r") auto

lemma emits_write_payload:
  assumes "bw_ok (bufw c)"
  shows "emits (write_payload c d) c ((if masking c then [0, 0, 0, 0] else []) @ d)"
  using assms emits_bufWrite [OF assms, of d]
  by (auto simp: write_payload_def
      intro!: emits_then [of _ _ "[0, 0, 0, 0]" _ d, simplified] emits_bufWrite)

lemma WriteMessage_ok:
  assumes "bw_ok (bufw c)"
  obtains b where "WriteMessage c t d = (None, c\<lparr>bufw := b\<rparr>)" "bw_ok b" "bbuf b = []"
    "sent (bsink b) = accepted (bufw c) @ frame_bytes (masking c) t d"
proof -
  let ?body = "\<lambda>c. then_w (write_length c (length d)) (\<lambda>c. write_payload c d)"
  let ?r = "then_w (on_bufw (\<lambda>b. WriteByte b (0x80 OR of_nat t)) c) ?body"
  let ?tail = "\<lambda>m. length_bytes m (length d) @ (if m then [0, 0, 0, 0] else []) @ d"
  have body: "emits (?body c1) c1 (?tail (masking c1))" if "bw_ok (bufw c1)" for c1
  proof (rule emits_then [OF emits_write_length [OF that]])
    fix b assume "bw_ok b"
    then show "emits (write_payload (c1\<lparr>bufw := b\<rparr>) d) (c1\<lparr>bufw := b\<rparr>)
        ((if masking c1 then [0, 0, 0, 0] else []) @ d)"
      using emits_write_payload [of "c1\<lparr>bufw := b\<rparr>" d] by simp
  qed
  have "emits ?r c ([0x80 OR of_nat t] @ ?tail (masking c))"
  proof (rule emits_then [OF emits_WriteByte [OF assms]])
    fix b assume "bw_ok b"
    then show "emits (?body (c\<lparr>bufw := b\<rparr>)) (c\<lparr>bufw := b\<rparr>) (?tail (masking c))"
      using body [of "c\<lparr>bufw := b\<rparr>"] by simp
  qed
  then have "emits ?r c (frame_bytes (masking c) t d)"
    by (simp add: frame_bytes_def)
  then have "\<exists>b. then_w ?r (on_bufw Flush) = (None, c\<lparr>bufw := b\<rparr>) \<and> bw_ok b \<and> bbuf b = [] \<and>
      sent (bsink b) = accepted (bufw c) @ frame_bytes (masking c) t d"
    by (rule emits_Flush)
  moreover have "WriteMessage c t d = then_w ?r (on_bufw Flush)"
    by (simp add: WriteMessage_def then_w_assoc)
  ultimately show ?thesis using that by auto
qed

subsection \<open>The reader inverts the encoding\<close>

text \<open>Bit facts about the second header byte, by evaluation over all its values.\<close>

lemma header_length_plain: "\<forall>n<128. (of_nat n :: byte) AND 0x7F = of_nat n \<and> (of_nat n :: byte) AND 0x80 = 0"
  by code_simp

lemma header_length_masked:
  "\<forall>n<128. (0x80 OR of_nat n :: byte) AND 0x7F = of_nat n \<and> (0x80 OR of_nat n :: byte) AND 0x80 \<noteq> 0"
  by code_simp

lemma header_opcode: "\<forall>n<16. unat ((0x80 OR of_nat n :: byte) AND 0x0F) = n"
  by code_simp

lemma read_length_length_bytes:
  assumes "n < 2 ^ 63"
  obtains b1 ext where "length_bytes m n = b1 # ext" "b1 AND 0x80 \<noteq> 0 \<longleftrightarrow> m"
    "\<forall>c rest. rd c = ext @ rest \<longrightarrow> read_length b1 c = (Inr (int n), c\<lparr>rd := rest\<rparr>)"
proof -
  consider "n \<le> 125" | "125 < n" "n \<le> 65535" | "65535 < n" by linarith
  then show ?thesis
  proof cases
    case 1
    let ?b = "(if m then 0x80 else 0) OR of_nat n :: byte"
    from 1 have "?b AND 0x7F = of_nat n" "?b AND 0x80 \<noteq> 0 \<longleftrightarrow> m"
      using header_length_plain header_length_masked by auto
    moreover from 1 have "uint (of_nat n :: byte) = int n" by (simp add: unsigned_of_nat take_bit_nat_eq_self)
    ultimately show ?thesis
      using 1 by (intro that [of ?b "[]"]) (auto simp: length_bytes_def read_length_def)
  next
    case 2
    then have "uint (of_nat n :: 16 word) = int n" "n mod 65536 = n"
      by (simp_all add: unsigned_of_nat take_bit_nat_eq_self)
    with 2 show ?thesis
      by (intro that [of "(if m then 0x80 else 0) OR 126" "be_enc 2 n"])
         (auto simp: length_bytes_def read_length_def rd_full_def read_full_def codec_simps)
  next
    case 3
    have "sint (of_nat n :: u64) = int n"
      using assms by (simp add: signed_of_nat signed_take_bit_int_eq_self)
    moreover have "n mod 256 ^ 8 = n" using assms by simp
    ultimately show ?thesis using 3
      by (intro that [of "(if m then 0x80 else 0) OR 127" "be_enc 8 n"])
         (auto simp: length_bytes_def read_length_def rd_full_def read_full_def codec_simps)
  qed
qed

lemma read_mask_exact:
  assumes "b1 AND 0x80 \<noteq> 0 \<longleftrightarrow> m" "rd c = (if m then key else []) @ rest" "length key = 4"
  shows "read_mask b1 c = (Inr (if m then key else []), c\<lparr>rd := rest\<rparr>)"
  using assms by (auto simp: read_mask_def rd_full_Inr)

lemma maxPayload_less: "int n \<le> maxPayload \<Longrightarrow> n < 2 ^ 63"
  by (simp add: maxPayload_def)

text \<open>Any frame, whatever its flag bits and its mask key.\<close>

lemma readFrame_raw:
  assumes frame: "rd c = b0 # length_bytes m (length p) @ (if m then key else []) @ p @ rest"
    and key: "length key = 4" and bound: "int (length p) \<le> maxPayload"
  shows "readFrame c =
    (Inr (unat (b0 AND 0x0F), if m then xor_mask 0 key p else p), c\<lparr>rd := rest\<rparr>)"
proof -
  obtain b1 ext where l: "length_bytes m (length p) = b1 # ext" and m: "b1 AND 0x80 \<noteq> 0 \<longleftrightarrow> m"
    and len: "\<forall>c rest. rd c = ext @ rest \<longrightarrow>
      read_length b1 c = (Inr (int (length p)), c\<lparr>rd := rest\<rparr>)"
    using maxPayload_less [OF bound] by (rule read_length_length_bytes [where m = m])
  let ?k = "(if m then key else []) @ p @ rest"
  have "rd_byte c = (Inr b0, c\<lparr>rd := b1 # ext @ ?k\<rparr>)"
    "rd_byte (c\<lparr>rd := b1 # ext @ ?k\<rparr>) = (Inr b1, c\<lparr>rd := ext @ ?k\<rparr>)"
    using frame l by (simp_all add: rd_byte_Inr)
  moreover have "read_length b1 (c\<lparr>rd := ext @ ?k\<rparr>) = (Inr (int (length p)), c\<lparr>rd := ?k\<rparr>)"
    using len by simp
  moreover have "read_mask b1 (c\<lparr>rd := ?k\<rparr>) = (Inr (if m then key else []), c\<lparr>rd := p @ rest\<rparr>)"
    using m key read_mask_exact [of b1 m "c\<lparr>rd := ?k\<rparr>" key "p @ rest"] by simp
  moreover have "rd_full (nat (int (length p))) (c\<lparr>rd := p @ rest\<rparr>) = (Inr p, c\<lparr>rd := rest\<rparr>)"
    by (simp add: rd_full_Inr)
  ultimately show ?thesis
    using bound m by (simp add: readFrame_def Let_def unmask_def)
qed

lemma readFrame_frame_bytes:
  assumes "rd c = frame_bytes m t d @ rest" "t < 16" "int (length d) \<le> maxPayload"
  shows "readFrame c = (Inr (t, d), c\<lparr>rd := rest\<rparr>)"
proof -
  have "readFrame c = (Inr (unat ((0x80 OR of_nat t :: byte) AND 0x0F),
      if m then xor_mask 0 [0, 0, 0, 0] d else d), c\<lparr>rd := rest\<rparr>)"
    using assms by (intro readFrame_raw) (simp_all add: frame_bytes_def)
  with assms(2) header_opcode show ?thesis by (simp add: codec_simps)
qed

lemma readStep_data:
  assumes "readFrame c = (Inr (t, d), c')" "t \<notin> {CloseMessage, PingMessage, PongMessage}"
  shows "readStep c = (Got t d, c')"
  using assms by (simp add: readStep_def)

lemma readStep_close:
  "readFrame c = (Inr (CloseMessage, d), c') \<Longrightarrow> readStep c = (Fail CloseMessage [] EOF, c')"
  by (simp add: readStep_def message_type_defs)

lemma readStep_pong: "readFrame c = (Inr (PongMessage, d), c') \<Longrightarrow> readStep c = (Skip, c')"
  by (simp add: readStep_def message_type_defs)

lemma readStep_ping:
  "readFrame c = (Inr (PingMessage, d), c1) \<Longrightarrow> callPingHandler c1 d = (None, c2) \<Longrightarrow>
     readStep c = (Skip, c2)"
  by (simp add: readStep_def)

lemma readStep_error: "readFrame c = (Inl e, c') \<Longrightarrow> readStep c = (Fail 0 [] e, c')"
  by (simp add: readStep_def)

lemmas ReadMessage_data = ReadMessage_Got [OF readStep_data]
lemmas ReadMessage_error = ReadMessage_Fail [OF readStep_error]

text \<open>What a returned message looks like: no control message, within the bound, input consumed.\<close>

lemma ReadMessage_result:
  assumes "ReadMessage c = ((t, p, None), c')"
  shows "t < 16 \<and> t \<notin> {CloseMessage, PingMessage, PongMessage} \<and> int (length p) \<le> maxPayload \<and>
    (\<exists>hd. rd c = hd @ rd c' \<and> length p + 2 \<le> length hd)"
  using assms
proof (induction c rule: ReadMessage.induct)
  case (1 c)
  obtain ev c1 where s: "readStep c = (ev, c1)" by (cases "readStep c")
  show ?case
  proof (cases ev)
    case Skip
    with s have s': "readStep c = (Skip, c1)" by simp
    then obtain hd where hd: "rd c = hd @ rd c1" "2 \<le> length hd" by (rule readStep_Skip)
    from s' Skip "1.IH" [OF s [symmetric]] "1.prems" obtain hd' where
      "t < 16 \<and> t \<notin> {CloseMessage, PingMessage, PongMessage} \<and> int (length p) \<le> maxPayload"
      "rd c1 = hd' @ rd c'" "length p + 2 \<le> length hd'"
      by (auto simp: ReadMessage_Skip)
    with hd show ?thesis by (auto intro!: exI [of _ "hd @ hd'"])
  next
    case (Got t' p')
    with s "1.prems" have g: "readStep c = (Got t p, c')" by (auto simp: ReadMessage_Got)
    from readStep_Got(1) [OF g] show ?thesis
      by (rule readFrame_consumes) (use readStep_Got(2) [OF g] in auto)
  next
    case (Fail t' p' e)
    with s "1.prems" show ?thesis by (auto simp: ReadMessage_Fail)
  qed
qed

subsection \<open>Writing to a connection that may fail\<close>

definition c_extends :: "Conn \<Rightarrow> go_error option \<times> Conn \<Rightarrow> byte list \<Rightarrow> bool" where
  "c_extends c r xs \<longleftrightarrow> (\<exists>b. snd r = c\<lparr>bufw := b\<rparr> \<and> extends (bufw c) (fst r, b) xs)"

lemma c_extends_then:
  assumes "c_extends c r xs"
    and "\<And>b. berr b = None \<Longrightarrow> c_extends (c\<lparr>bufw := b\<rparr>) (f (c\<lparr>bufw := b\<rparr>)) ys"
  shows "c_extends c (then_w r f) (xs @ ys)"
proof -
  from assms(1) obtain b where b: "snd r = c\<lparr>bufw := b\<rparr>" "extends (bufw c) (fst r, b) xs"
    by (auto simp: c_extends_def)
  show ?thesis
  proof (cases "fst r")
    case (Some e)
    with b have "then_w r f = (Some e, c\<lparr>bufw := b\<rparr>)" by (cases r) auto
    moreover from b(2) Some have "extends (bufw c) (Some e, b) (xs @ ys)"
      using prefix_prefix [of "sent (bsink b)" "accepted (bufw c) @ xs" ys] by (simp add: extends_def)
    ultimately show ?thesis by (auto simp: c_extends_def)
  next
    case None
    with b have ok: "berr b = None" "accepted b = accepted (bufw c) @ xs"
      by (simp_all add: extends_def)
    from None b have "then_w r f = f (c\<lparr>bufw := b\<rparr>)" by (cases r) auto
    moreover from assms(2) [OF ok(1)] obtain b2 where
      "snd (f (c\<lparr>bufw := b\<rparr>)) = c\<lparr>bufw := b2\<rparr>" "extends b (fst (f (c\<lparr>bufw := b\<rparr>)), b2) ys"
      by (auto simp: c_extends_def)
    moreover from this(2) ok(2) have "extends (bufw c) (fst (f (c\<lparr>bufw := b\<rparr>)), b2) (xs @ ys)"
      by (simp add: extends_def split: option.splits)
    ultimately show ?thesis unfolding c_extends_def by metis
  qed
qed

lemma c_extends_on_bufw:
  "extends (bufw c) (f (bufw c)) xs \<Longrightarrow> c_extends c (on_bufw f c) xs"
  unfolding c_extends_def on_bufw_def
  by (cases "f (bufw c)") (intro exI [of _ "snd (f (bufw c))"], simp)

lemma c_extends_WriteByte: "berr (bufw c) = None \<Longrightarrow> c_extends c (on_bufw (\<lambda>b. WriteByte b x) c) [x]"
  and c_extends_bufWrite: "berr (bufw c) = None \<Longrightarrow> c_extends c (on_bufw (\<lambda>b. bufWrite b p) c) p"
  and c_extends_Flush: "berr (bufw c) = None \<Longrightarrow> c_extends c (on_bufw Flush c) []"
  by (simp_all add: c_extends_on_bufw WriteByte_extends bufWrite_extends Flush_extends)

lemma c_extends_write_length:
  assumes "berr (bufw c) = None"
  shows "c_extends c (write_length c n) (length_bytes (masking c) n)"
proof -
  have "c_extends c (then_w (on_bufw (\<lambda>b. WriteByte b x) c) (\<lambda>c. on_bufw (\<lambda>b. bufWrite b ys) c))
      ([x] @ ys)" for x ys
    by (rule c_extends_then [OF c_extends_WriteByte [OF assms]]) (simp add: c_extends_bufWrite)
  note two = this
  show ?thesis
    unfolding write_length_def length_bytes_def Let_def maskBit_def
    using two [of _ "be_enc 2 n"] two [of _ "be_enc 8 n"] c_extends_WriteByte [OF assms] by simp
qed

lemma c_extends_write_payload:
  assumes "berr (bufw c) = None"
  shows "c_extends c (write_payload c d) ((if masking c then [0, 0, 0, 0] else []) @ d)"
proof (cases "masking c")
  case True
  have "c_extends c (then_w (on_bufw (\<lambda>b. bufWrite b [0, 0, 0, 0]) c)
      (\<lambda>c. on_bufw (\<lambda>b. bufWrite b d) c)) ([0, 0, 0, 0] @ d)"
    by (rule c_extends_then [OF c_extends_bufWrite [OF assms]]) (simp add: c_extends_bufWrite)
  with True show ?thesis by (simp add: write_payload_def)
next
  case False
  with c_extends_bufWrite [OF assms, of d] show ?thesis by (simp add: write_payload_def)
qed

lemma c_extends_WriteMessage:
  assumes "berr (bufw c) = None"
  shows "c_extends c (WriteMessage c t d) (frame_bytes (masking c) t d)"
proof -
  let ?h = "[0x80 OR of_nat t]" and ?l = "length_bytes (masking c) (length d)"
    and ?p = "(if masking c then [0, 0, 0, 0] else []) @ d"
  have p: "c_extends c1 (then_w (write_payload c1 d) (\<lambda>c. on_bufw Flush c)) (?p @ [])"
    if "berr (bufw c1) = None" "masking c1 = masking c" for c1
    using c_extends_write_payload [OF that(1), of d] that(2)
    by (intro c_extends_then) (simp_all add: c_extends_Flush)
  have l: "c_extends c1 (then_w (write_length c1 (length d)) (\<lambda>c. then_w (write_payload c d)
      (\<lambda>c. on_bufw Flush c))) (?l @ ?p @ [])"
    if "berr (bufw c1) = None" "masking c1 = masking c" for c1
  proof (rule c_extends_then)
    show "c_extends c1 (write_length c1 (length d)) ?l"
      using c_extends_write_length [OF that(1), of "length d"] that(2) by simp
  qed (rule p, use that(2) in simp_all)
  have "c_extends c (WriteMessage c t d) (?h @ ?l @ ?p @ [])"
    unfolding WriteMessage_def
    by (rule c_extends_then [OF c_extends_WriteByte [OF assms]]) (rule l, simp_all)
  then show ?thesis by (simp add: frame_bytes_def)
qed

lemma Flush_empties: "Flush b = (None, b') \<Longrightarrow> bbuf b' = []"
  using Flush_extends(2) [of b b'] by (cases "berr b") (simp_all add: sticky_error)

lemma WriteMessage_flushed:
  assumes "WriteMessage c t d = (None, c')"
  shows "bbuf (bufw c') = []"
proof -
  from assms obtain c2 where c2: "on_bufw Flush c2 = (None, c')"
    unfolding WriteMessage_def then_w_None by blast
  obtain x b where b: "Flush (bufw c2) = (x, b)" by (cases "Flush (bufw c2)")
  with c2 have "x = None" "c' = c2\<lparr>bufw := b\<rparr>" by (simp_all add: on_bufw_def)
  with b Flush_empties show ?thesis by simp
qed

lemma WriteMessage_sticky:
  "berr (bufw c) = Some e \<Longrightarrow> WriteMessage c t d = (Some e, c)"
  by (simp add: WriteMessage_def on_bufw_def sticky_error(1) [of "bufw c" e])

subsection \<open>Properties\<close>

text \<open>C1. Message round trip. Writing a data message on a healthy connection succeeds and appends
  one frame to the wire, and a peer that reads this frame, masked or not, gets back the same type
  and payload and leaves the following bytes untouched. Payloads go up to the reader's 10 MB.\<close>

theorem wst_message_roundtrip:
  assumes "bw_ok (bufw s)" "t = TextMessage \<or> t = BinaryMessage" "int (length d) \<le> maxPayload"
  shows "\<exists>s' w. WriteMessage s t d = (None, s') \<and> bw_ok (bufw s') \<and>
    on_wire s' = accepted (bufw s) @ w \<and>
    (\<forall>r rest. rd r = w @ rest \<longrightarrow> ReadMessage r = ((t, d, None), r\<lparr>rd := rest\<rparr>))"
proof -
  obtain b where b: "WriteMessage s t d = (None, s\<lparr>bufw := b\<rparr>)" "bw_ok b"
      "sent (bsink b) = accepted (bufw s) @ frame_bytes (masking s) t d"
    using assms(1) by (rule WriteMessage_ok)
  have t: "t < 16" "t \<notin> {CloseMessage, PingMessage, PongMessage}"
    using assms(2) by (auto simp: message_type_defs)
  have "ReadMessage r = ((t, d, None), r\<lparr>rd := rest\<rparr>)"
    if "rd r = frame_bytes (masking s) t d @ rest" for r rest
    using ReadMessage_data [OF readFrame_frame_bytes [OF that t(1) assms(3)] t(2)] .
  with b show ?thesis
    by (intro exI [of _ "s\<lparr>bufw := b\<rparr>"] exI [of _ "frame_bytes (masking s) t d"])
       (simp add: on_wire_def)
qed

definition wst_demo :: "bool \<Rightarrow> Conn" where
  "wst_demo m = \<lparr>rd = [], rdend = EOF, bufw = new_bwriter fresh_sink, masking = m,
     pingHandler = DefaultPing\<rparr>"

theorem wst_message_roundtrip_witness:
  "\<exists>s' w. WriteMessage (wst_demo True) BinaryMessage [1, 2, 3] = (None, s') \<and> bw_ok (bufw s') \<and>
    on_wire s' = accepted (bufw (wst_demo True)) @ w \<and>
    (\<forall>r rest. rd r = w @ rest \<longrightarrow>
       ReadMessage r = ((BinaryMessage, [1, 2, 3], None), r\<lparr>rd := rest\<rparr>))"
  by (rule wst_message_roundtrip) (simp_all add: wst_demo_def fresh_sink_def maxPayload_def)

text \<open>The reader is permissive about masking as the protocol notes say: a frame of a data
  opcode with any flag bits and any mask key (or none) is delivered with the key removed.\<close>

theorem wst_reads_any_mask:
  assumes "rd r = b0 # length_bytes m (length p) @ (if m then key else []) @ p @ rest"
    and "length key = 4" "int (length p) \<le> maxPayload"
    and "unat (b0 AND 0x0F) \<notin> {CloseMessage, PingMessage, PongMessage}"
  shows "ReadMessage r =
    ((unat (b0 AND 0x0F), if m then xor_mask 0 key p else p, None), r\<lparr>rd := rest\<rparr>)"
  using ReadMessage_data [OF readFrame_raw [OF assms(1-3)] assms(4)] .

theorem wst_reads_any_mask_witness:
  "ReadMessage (wst_demo False\<lparr>rd := [0x82, 0x83, 1, 2, 3, 4, 10, 20, 30, 99]\<rparr>) =
    ((2, [11, 22, 29], None), wst_demo False\<lparr>rd := [99]\<rparr>)"
proof -
  have "ReadMessage (wst_demo False\<lparr>rd := [0x82, 0x83, 1, 2, 3, 4, 10, 20, 30, 99]\<rparr>) =
      ((unat ((0x82 :: byte) AND 0x0F), if True then xor_mask 0 [1, 2, 3, 4] [10, 20, 30]
        else [10, 20, 30], None),
       (wst_demo False\<lparr>rd := [0x82, 0x83, 1, 2, 3, 4, 10, 20, 30, 99]\<rparr>)\<lparr>rd := [99]\<rparr>)"
    by (rule wst_reads_any_mask)
       (simp_all add: length_bytes_def maxPayload_def message_type_defs)
  then show ?thesis by simp
qed



text \<open>A frame that announces more than 10 MB is refused, also when the 64-bit length is
  negative as a signed number, before any of its payload is read.\<close>

theorem wst_read_refuses_large:
  assumes "rd r = h # l # be_enc 8 n @ (if m then key else []) @ rest" "length key = 4"
    and "l AND 0x7F = 127" "l AND 0x80 \<noteq> 0 \<longleftrightarrow> m" "maxPayload < int n" "n < 2 ^ 64"
  shows "ReadMessage r = ((0, [], Some (Errorf ''payload length is out of bounds'')), r\<lparr>rd := rest\<rparr>)"
proof -
  let ?k = "(if m then key else []) @ rest"
  let ?l = "sint (of_nat n :: u64)"
  have "n mod 256 ^ 8 = n" using assms(6) by simp
  then have "read_length l (r\<lparr>rd := be_enc 8 n @ ?k\<rparr>) = (Inr ?l, r\<lparr>rd := ?k\<rparr>)"
    using assms(3) by (simp add: read_length_def rd_full_def read_full_def codec_simps)
  moreover have "read_mask l (r\<lparr>rd := ?k\<rparr>) = (Inr (if m then key else []), r\<lparr>rd := rest\<rparr>)"
    using read_mask_exact [OF assms(4), of "r\<lparr>rd := ?k\<rparr>" key rest] assms(2) by simp
  moreover have "?l < 0 \<or> maxPayload < ?l"
  proof (cases "n < 2 ^ 63")
    case True
    then have "?l = int n" by (simp add: signed_of_nat signed_take_bit_int_eq_self)
    with assms(5) show ?thesis by simp
  next
    case False
    have "(int n + 2 ^ 63) mod 2 ^ 64 = ((int n - 2 ^ 63) + 2 ^ 64) mod (2 ^ 64 :: int)"
      by (simp add: algebra_simps)
    also have "\<dots> = int n - 2 ^ 63"
      using False assms(6) by (subst mod_add_self2) (simp add: mod_pos_pos_trivial)
    finally have "?l = int n - 2 ^ 64"
      by (simp add: signed_of_nat signed_take_bit_eq_take_bit_shift take_bit_eq_mod)
    with assms(6) show ?thesis by simp
  qed
  ultimately have "readFrame r =
      (Inl (Errorf ''payload length is out of bounds''), r\<lparr>rd := rest\<rparr>)"
    using assms(1) by (simp add: readFrame_def rd_byte_def Let_def)
  then show ?thesis by (rule ReadMessage_error)
qed

theorem wst_read_refuses_large_witness:
  "ReadMessage (wst_demo False\<lparr>rd := [0x82, 127] @ be_enc 8 (2 ^ 64 - 1) @ [5]\<rparr>) =
    ((0, [], Some (Errorf ''payload length is out of bounds'')), wst_demo False\<lparr>rd := [5]\<rparr>)"
proof -
  have "ReadMessage (wst_demo False\<lparr>rd := [0x82, 127] @ be_enc 8 (2 ^ 64 - 1) @ [5]\<rparr>) =
      ((0, [], Some (Errorf ''payload length is out of bounds'')),
       (wst_demo False\<lparr>rd := [0x82, 127] @ be_enc 8 (2 ^ 64 - 1) @ [5]\<rparr>)\<lparr>rd := [5]\<rparr>)"
    by (rule wst_read_refuses_large [where m = False and key = "[0, 0, 0, 0]" and h = "0x82" and
          l = "127" and n = "2 ^ 64 - 1"]) (simp_all add: maxPayload_def)
  then show ?thesis by simp
qed

text \<open>C19. A write that fails half-way leaves on the wire what was buffered before and a prefix of
  the frame, never other bytes; a write that succeeds leaves exactly the frame; after a failure
  every later write on the connection fails and sends nothing.\<close>

theorem wst_write_prefix:
  assumes "berr (bufw c) = None" "WriteMessage c t d = (r, c')"
  shows "case r of
      None \<Rightarrow> on_wire c' = accepted (bufw c) @ frame_bytes (masking c) t d
    | Some e \<Rightarrow> prefix (on_wire c') (accepted (bufw c) @ frame_bytes (masking c) t d) \<and>
        (\<forall>t' d'. WriteMessage c' t' d' = (Some e, c'))"
proof -
  obtain b where b: "c' = c\<lparr>bufw := b\<rparr>" "extends (bufw c) (r, b) (frame_bytes (masking c) t d)"
    using c_extends_WriteMessage [OF assms(1), of t d] assms(2) by (auto simp: c_extends_def)
  show ?thesis
  proof (cases r)
    case None
    with assms(2) have "bbuf (bufw c') = []" using WriteMessage_flushed by blast
    with None b show ?thesis by (simp add: on_wire_def extends_def accepted_def)
  next
    case (Some e)
    with b show ?thesis by (simp add: on_wire_def extends_def WriteMessage_sticky)
  qed
qed

theorem wst_write_prefix_witness:
  "case Some ErrClosed of
      None \<Rightarrow> False
    | Some e \<Rightarrow> prefix [0x82, 2] (frame_bytes False BinaryMessage [7, 8]) \<and>
        (\<forall>t' d'. WriteMessage (wst_demo False\<lparr>bufw := \<lparr>bbuf = [0x82, 2, 7, 8], berr = Some ErrClosed,
             bsink = \<lparr>sent = [0x82, 2], limit = Some 0, lerr = ErrClosed\<rparr>\<rparr>\<rparr>) t' d' =
           (Some e, wst_demo False\<lparr>bufw := \<lparr>bbuf = [0x82, 2, 7, 8], berr = Some ErrClosed,
             bsink = \<lparr>sent = [0x82, 2], limit = Some 0, lerr = ErrClosed\<rparr>\<rparr>\<rparr>))"
proof -
  let ?s = "wst_demo False\<lparr>bufw := new_bwriter \<lparr>sent = [], limit = Some 2, lerr = ErrClosed\<rparr>\<rparr>"
  let ?s' = "wst_demo False\<lparr>bufw := \<lparr>bbuf = [0x82, 2, 7, 8], berr = Some ErrClosed,
      bsink = \<lparr>sent = [0x82, 2], limit = Some 0, lerr = ErrClosed\<rparr>\<rparr>\<rparr>"
  have "WriteMessage ?s BinaryMessage [7, 8] = (Some ErrClosed, ?s')"
    by (simp add: WriteMessage_def on_bufw_def WriteByte_def available_def bufSize_def
        new_bwriter_def write_length_def maskBit_def write_payload_def bufWrite_fits Flush_def
        sink_write_def wst_demo_def message_type_defs)
  from wst_write_prefix [OF _ this] show ?thesis
    by (simp add: on_wire_def accepted_def new_bwriter_def wst_demo_def)
qed

text \<open>\<open>WriteControl\<close> buffers the first header byte before it checks the length. For a payload
  over 125 bytes it reports an error and leaves this byte behind: the next message on the
  connection goes out with a stray byte in front of its frame.\<close>

theorem wst_overlong_control_stray_byte:
  assumes "bw_ok (bufw c)" "125 < length d"
  shows "\<exists>c'. WriteControl c t d = (Some (Errorf ''control frame length > 125''), c') \<and>
    (\<forall>t' p. \<exists>s. WriteMessage c' t' p = (None, s) \<and>
       on_wire s = accepted (bufw c) @ (0x80 OR of_nat t) # frame_bytes (masking c) t' p)"
proof -
  obtain b where b: "WriteByte (bufw c) (0x80 OR of_nat t) = (None, b)" "bw_ok b"
      "accepted b = accepted (bufw c) @ [0x80 OR of_nat t]"
    using assms(1) by (rule WriteByte_ok)
  let ?c = "c\<lparr>bufw := b\<rparr>"
  have "WriteControl c t d = (Some (Errorf ''control frame length > 125''), ?c)"
    using b assms(2) by (simp add: WriteControl_def on_bufw_def)
  moreover have "\<exists>s. WriteMessage ?c t' p = (None, s) \<and>
      on_wire s = accepted (bufw c) @ (0x80 OR of_nat t) # frame_bytes (masking c) t' p" for t' p
  proof -
    obtain b' where "WriteMessage ?c t' p = (None, ?c\<lparr>bufw := b'\<rparr>)"
        "sent (bsink b') = accepted b @ frame_bytes (masking c) t' p"
      using WriteMessage_ok [of ?c t' p] b(2) by auto
    then show ?thesis using b(3) by (auto simp: on_wire_def)
  qed
  ultimately show ?thesis by blast
qed

theorem wst_overlong_control_stray_byte_witness:
  "\<exists>c'. WriteControl (wst_demo False) PongMessage (replicate 126 0) =
      (Some (Errorf ''control frame length > 125''), c') \<and>
    (\<forall>t' p. \<exists>s. WriteMessage c' t' p = (None, s) \<and>
       on_wire s = accepted (bufw (wst_demo False)) @ (0x80 OR of_nat PongMessage) #
         frame_bytes (masking (wst_demo False)) t' p)"
  by (rule wst_overlong_control_stray_byte) (simp_all add: wst_demo_def fresh_sink_def)

end
