(* ===== verification/Tunnel_Pipe.thy ===== *)
theory Tunnel_Pipe
  imports Wst_Conn
begin

text \<open>
  The data pumps of \<^verbatim>\<open>pkg/tunnel/pipe.go\<close>. \<open>Pipe\<close>, \<open>PipeRW\<close>, \<open>PipeGorilla\<close> and
  \<open>PipeGorillaRW\<close> are the same program over two types of local side and two types of WebSocket:
  one goroutine reads the local side and writes binary messages, the other reads messages and
  writes the local side. The model is one state machine over a message connection given by its
  \<open>wr\<close> and \<open>rm\<close> operations; the two goroutines take their loop rounds in any order.

  The locale \<open>duplex\<close> is what the pumps need of a message connection. It is interpreted on the
  program's own connection (\<open>WriteMessage\<close>, \<open>readStep\<close>), in both masking modes; the
  third-party connection of the \<^verbatim>\<open>Gorilla\<close> variants is a parameter with the same contract.

  The lemmas show, for every interleaving: the wire carries whole frames only, the binary ones
  carry the bytes read from the local side in order, nothing is sent after the close frame but
  pongs; the bytes written to the local side are the payloads received; and what one end reads
  from its local side is what the other end writes to its own.
\<close>

subsection \<open>One goroutine round each\<close>

type_synonym tcp_read = "byte list \<times> go_error option"

record 'c pipe =
  reads :: "tcp_read list"
  tcp :: sink
  tcpClosed :: bool
  ws :: 'c
  outRunning :: bool
  inRunning :: bool

type_synonym 'c writer = "'c \<Rightarrow> nat \<Rightarrow> byte list \<Rightarrow> go_error option \<times> 'c"
type_synonym 'c reader = "'c \<Rightarrow> read_event \<times> 'c"

definition normalClose :: "byte list" where
  "normalClose = FormatCloseMessage CloseNormalClosure ''''"

text \<open>The deferred close message of the outbound goroutine.\<close>

definition finish_out :: "'c writer \<Rightarrow> 'c pipe \<Rightarrow> 'c pipe" where
  "finish_out wr s = s\<lparr>ws := snd (wr (ws s) CloseMessage normalClose), outRunning := False\<rparr>"

text \<open>A round of the outbound loop. After data was read the error of that call is overwritten
  by the result of the message write, as in the code.\<close>

definition out_iter :: "'c writer \<Rightarrow> 'c pipe \<Rightarrow> 'c pipe" where
  "out_iter wr s =
     (case reads s of
        [] \<Rightarrow> s
      | (d, err) # rs \<Rightarrow>
          if d \<noteq> [] then
            (case wr (ws s) BinaryMessage d of
               (Some e, c) \<Rightarrow> finish_out wr (s\<lparr>reads := rs, ws := c\<rparr>)
             | (None, c) \<Rightarrow> s\<lparr>reads := rs, ws := c\<rparr>)
          else if err \<noteq> None then finish_out wr (s\<lparr>reads := rs\<rparr>)
          else s\<lparr>reads := rs\<rparr>)"

text \<open>The deferred close of the local side.\<close>

definition finish_in :: "'c pipe \<Rightarrow> 'c pipe" where
  "finish_in s = s\<lparr>tcpClosed := True, inRunning := False\<rparr>"

definition in_iter :: "'c reader \<Rightarrow> 'c pipe \<Rightarrow> 'c pipe" where
  "in_iter rm s =
     (case rm (ws s) of
        (Skip, c) \<Rightarrow> s\<lparr>ws := c\<rparr>
      | (Fail t p e, c) \<Rightarrow> finish_in (s\<lparr>ws := c\<rparr>)
      | (Got t p, c) \<Rightarrow>
          if t = BinaryMessage \<or> t = TextMessage then
            (case sink_write (tcp s) p of
               (Some e, k) \<Rightarrow> finish_in (s\<lparr>ws := c, tcp := k\<rparr>)
             | (None, k) \<Rightarrow> s\<lparr>ws := c, tcp := k\<rparr>)
          else s\<lparr>ws := c\<rparr>)"

inductive pipe_step :: "'c writer \<Rightarrow> 'c reader \<Rightarrow> 'c pipe \<Rightarrow> 'c pipe \<Rightarrow> bool"
  for wr :: "'c writer" and rm :: "'c reader" where
  out_round: "outRunning s \<Longrightarrow> reads s \<noteq> [] \<Longrightarrow> pipe_step wr rm s (out_iter wr s)"
| in_round: "inRunning s \<Longrightarrow> pipe_step wr rm s (in_iter rm s)"

inductive_cases pipe_stepE: "pipe_step wr rm s t"

text \<open>The run of a schedule (\<open>True\<close>: the outbound goroutine's turn); a goroutine that has ended or
  is blocked on its read lets its turn pass.\<close>

fun pipe_run :: "'c writer \<Rightarrow> 'c reader \<Rightarrow> bool list \<Rightarrow> 'c pipe \<Rightarrow> 'c pipe" where
  "pipe_run wr rm [] s = s"
| "pipe_run wr rm (True # bs) s = pipe_run wr rm bs (if outRunning s then out_iter wr s else s)"
| "pipe_run wr rm (False # bs) s = pipe_run wr rm bs (if inRunning s then in_iter rm s else s)"

lemma pipe_run_append: "pipe_run wr rm (as @ bs) s = pipe_run wr rm bs (pipe_run wr rm as s)"
  by (induction wr rm as s rule: pipe_run.induct) auto

lemma out_iter_blocked: "reads s = [] \<Longrightarrow> out_iter wr s = s"
  by (simp add: out_iter_def)

lemma out_iter_inRunning: "inRunning (out_iter wr s) = inRunning s"
proof (cases "reads s")
  case (Cons r rs)
  then show ?thesis
    by (cases r; cases "wr (ws s) BinaryMessage (fst r)"; cases "fst (wr (ws s) BinaryMessage (fst r))")
      (simp_all add: out_iter_def finish_out_def)
qed (simp add: out_iter_def)

lemma stopped_stays: "\<not> inRunning s \<Longrightarrow> \<not> inRunning (pipe_run wr rm bs s)"
  by (induction wr rm bs s rule: pipe_run.induct) (simp_all add: out_iter_inRunning)

lemma pipe_run_reaches: "(pipe_step wr rm)\<^sup>*\<^sup>* s (pipe_run wr rm bs s)"
proof (induction wr rm bs s rule: pipe_run.induct)
  case (2 wr rm bs s)
  then show ?case
    using out_iter_blocked [of s wr]
    by (cases "reads s = []"; cases "outRunning s") (auto intro: converse_rtranclp_into_rtranclp pipe_step.out_round)
next
  case (3 wr rm bs s)
  then show ?case by (auto intro: converse_rtranclp_into_rtranclp pipe_step.in_round)
qed simp

lemma reaches_pipe_run:
  assumes "(pipe_step wr rm)\<^sup>*\<^sup>* s t"
  shows "\<exists>bs. t = pipe_run wr rm bs s"
  using assms
proof (induction rule: rtranclp_induct)
  case base
  show ?case by (rule exI [of _ "[]"]) simp
next
  case (step t u)
  then obtain bs where bs: "t = pipe_run wr rm bs s" by blast
  have "u = pipe_run wr rm (bs @ [True]) s \<or> u = pipe_run wr rm (bs @ [False]) s"
    using step(2) by (auto simp: pipe_run_append bs elim: pipe_stepE)
  then show ?case by blast
qed

text \<open>The start of \<open>Pipe\<close>: both goroutines running.\<close>

definition start_pipe :: "tcp_read list \<Rightarrow> sink \<Rightarrow> 'c \<Rightarrow> 'c pipe" where
  "start_pipe rs k c =
     \<lparr>reads = rs, tcp = k, tcpClosed = False, ws = c, outRunning = True, inRunning = True\<rparr>"

text \<open>The four entry points: the runs of the two goroutines from the start state, up to the
  wait for both.\<close>

definition Pipe :: "tcp_read list \<Rightarrow> sink \<Rightarrow> Conn \<Rightarrow> Conn pipe \<Rightarrow> bool" where
  "Pipe rs k c s \<longleftrightarrow> (pipe_step WriteMessage readStep)\<^sup>*\<^sup>* (start_pipe rs k c) s"

definition PipeRW :: "tcp_read list \<Rightarrow> sink \<Rightarrow> Conn \<Rightarrow> Conn pipe \<Rightarrow> bool" where
  "PipeRW rs k c s \<longleftrightarrow> (pipe_step WriteMessage readStep)\<^sup>*\<^sup>* (start_pipe rs k c) s"

definition PipeGorilla ::
  "'c writer \<Rightarrow> 'c reader \<Rightarrow> tcp_read list \<Rightarrow> sink \<Rightarrow> 'c \<Rightarrow> 'c pipe \<Rightarrow> bool" where
  "PipeGorilla wr rm rs k c s \<longleftrightarrow> (pipe_step wr rm)\<^sup>*\<^sup>* (start_pipe rs k c) s"

definition PipeGorillaRW ::
  "'c writer \<Rightarrow> 'c reader \<Rightarrow> tcp_read list \<Rightarrow> sink \<Rightarrow> 'c \<Rightarrow> 'c pipe \<Rightarrow> bool" where
  "PipeGorillaRW wr rm rs k c s \<longleftrightarrow> (pipe_step wr rm)\<^sup>*\<^sup>* (start_pipe rs k c) s"

subsection \<open>Messages\<close>

type_synonym msg = "nat \<times> byte list"

abbreviation encode_all :: "(nat \<Rightarrow> byte list \<Rightarrow> byte list) \<Rightarrow> msg list \<Rightarrow> byte list" where
  "encode_all enc ms \<equiv> concat (map (\<lambda>(t, d). enc t d) ms)"

abbreviation payloads :: "nat set \<Rightarrow> msg list \<Rightarrow> byte list" where
  "payloads T ms \<equiv> concat (map snd (filter (\<lambda>m. fst m \<in> T) ms))"

abbreviation fits :: "byte list \<Rightarrow> bool" where
  "fits d \<equiv> int (length d) \<le> maxPayload"

text \<open>What the outbound goroutine and the ping handler have sent: binary messages and pongs, and
  once the goroutine has ended a close message followed by pongs only.\<close>

definition sent_shape :: "bool \<Rightarrow> msg list \<Rightarrow> bool" where
  "sent_shape running ms \<longleftrightarrow>
     (if running then fst ` set ms \<subseteq> {BinaryMessage, PongMessage}
      else (\<exists>pre post. ms = pre @ (CloseMessage, normalClose) # post \<and>
              fst ` set pre \<subseteq> {BinaryMessage, PongMessage} \<and> fst ` set post \<subseteq> {PongMessage}))"

lemma sent_shape_pong:
  "sent_shape r ms \<Longrightarrow> sent_shape r (ms @ [(PongMessage, d)])"
proof (cases r)
  case False
  assume "sent_shape r ms"
  with False obtain pre post where "ms = pre @ (CloseMessage, normalClose) # post"
    "fst ` set pre \<subseteq> {BinaryMessage, PongMessage}" "fst ` set post \<subseteq> {PongMessage}"
    by (auto simp: sent_shape_def)
  then show ?thesis
    using False unfolding sent_shape_def
    by (simp, intro exI [of _ pre] exI [of _ "post @ [(PongMessage, d)]"]) auto
qed (auto simp: sent_shape_def)

lemma sent_shape_binary:
  "sent_shape True ms \<Longrightarrow> sent_shape True (ms @ [(BinaryMessage, d)])"
  by (auto simp: sent_shape_def)

lemma sent_shape_close:
  "sent_shape True ms \<Longrightarrow> sent_shape False (ms @ [(CloseMessage, normalClose)])"
  unfolding sent_shape_def by (simp, rule exI [of _ ms]) simp

lemma payloads_append_other:
  "t \<notin> T \<Longrightarrow> payloads T (ms @ [(t, d)]) = payloads T ms"
  by simp

subsection \<open>The contract of a message connection\<close>

locale duplex =
  fixes wr :: "'c writer" and rm :: "'c reader"
    and healthy :: "'c \<Rightarrow> bool" and wire :: "'c \<Rightarrow> byte list" and pending :: "'c \<Rightarrow> byte list"
    and enc :: "nat \<Rightarrow> byte list \<Rightarrow> byte list" and penc :: "nat \<Rightarrow> byte list \<Rightarrow> byte list"
  assumes write_law: "healthy c \<Longrightarrow> \<exists>c'. wr c t d = (None, c') \<and> healthy c' \<and>
      wire c' = wire c @ enc t d \<and> pending c' = pending c"
    and read_any: "healthy c \<Longrightarrow> rm c = (ev, c') \<Longrightarrow> healthy c' \<and>
      (wire c' = wire c \<or> (\<exists>p. fits p \<and> wire c' = wire c @ enc PongMessage p))"
    and read_data: "healthy c \<Longrightarrow> t \<in> {BinaryMessage, TextMessage} \<Longrightarrow> fits d \<Longrightarrow>
      pending c = penc t d @ rest \<Longrightarrow> \<exists>c'. rm c = (Got t d, c') \<and> pending c' = rest"
    and read_control: "healthy c \<Longrightarrow> t \<in> {PingMessage, PongMessage} \<Longrightarrow> fits d \<Longrightarrow>
      pending c = penc t d @ rest \<Longrightarrow> \<exists>c'. rm c = (Skip, c') \<and> pending c' = rest"
    and read_close: "healthy c \<Longrightarrow> fits d \<Longrightarrow> pending c = penc CloseMessage d @ rest \<Longrightarrow>
      \<exists>c'. rm c = (Fail CloseMessage [] EOF, c')"
    and penc_ne: "penc t d \<noteq> []"
begin

text \<open>The outbound invariant, relative to the reads and the wire at the start.\<close>

definition out_inv :: "tcp_read list \<Rightarrow> byte list \<Rightarrow> 'c pipe \<Rightarrow> bool" where
  "out_inv rs0 w0 s \<longleftrightarrow>
     healthy (ws s) \<and>
     (\<exists>used ms. rs0 = used @ reads s \<and> wire (ws s) = w0 @ encode_all enc ms \<and>
        sent_shape (outRunning s) ms \<and> payloads {BinaryMessage} ms = concat (map fst used) \<and>
        (\<forall>(t, d) \<in> set ms. fits d \<or> d \<in> fst ` set used) \<and>
        (outRunning s \<or> (\<exists>us e. used = us @ [([], Some e)])))"

lemma out_inv_start: "healthy c \<Longrightarrow> out_inv rs (wire c) (start_pipe rs k c)"
  unfolding out_inv_def start_pipe_def
  by (auto intro!: exI [of _ "[]"] simp: sent_shape_def)

lemma normalClose_fits: "fits normalClose"
  by (simp add: normalClose_def FormatCloseMessage_def maxPayload_def)

lemma out_inv_out_iter:
  assumes inv: "out_inv rs0 w0 s" and run: "outRunning s" and ne: "reads s \<noteq> []"
  shows "out_inv rs0 w0 (out_iter wr s)"
proof -
  obtain d err rs where r: "reads s = (d, err) # rs" using ne by (cases "reads s") auto
  from inv run obtain used ms where h: "healthy (ws s)" and u: "rs0 = used @ reads s"
    and w: "wire (ws s) = w0 @ encode_all enc ms" and sh: "sent_shape True ms"
    and p: "payloads {BinaryMessage} ms = concat (map fst used)"
    and f: "\<forall>(t, d) \<in> set ms. fits d \<or> d \<in> fst ` set used"
    by (auto simp: out_inv_def)
  have u': "rs0 = (used @ [(d, err)]) @ rs" using u r by simp
  show ?thesis
  proof (cases "d = []")
    case False
    obtain c where c: "wr (ws s) BinaryMessage d = (None, c)" "healthy c"
        "wire c = wire (ws s) @ enc BinaryMessage d"
      using write_law [OF h] by blast
    have "out_iter wr s = s\<lparr>reads := rs, ws := c\<rparr>"
      using r False c(1) by (simp add: out_iter_def)
    moreover have "out_inv rs0 w0 (s\<lparr>reads := rs, ws := c\<rparr>)"
      unfolding out_inv_def
      using c(2,3) u' w p f run sent_shape_binary [OF sh, of d]
      by (auto intro!: exI [of _ "used @ [(d, err)]"] exI [of _ "ms @ [(BinaryMessage, d)]"])
    ultimately show ?thesis by simp
  next
    case True
    show ?thesis
    proof (cases err)
      case None
      then have "out_iter wr s = s\<lparr>reads := rs\<rparr>" using r True by (simp add: out_iter_def)
      moreover have "out_inv rs0 w0 (s\<lparr>reads := rs\<rparr>)"
        unfolding out_inv_def using h u' w p f run sh True
        by (auto intro!: exI [of _ "used @ [(d, err)]"] exI [of _ ms])
      ultimately show ?thesis by simp
    next
      case (Some e)
      obtain c where c: "wr (ws s) CloseMessage normalClose = (None, c)" "healthy c"
          "wire c = wire (ws s) @ enc CloseMessage normalClose"
        using write_law [OF h] by blast
      have "out_iter wr s = s\<lparr>reads := rs, ws := c, outRunning := False\<rparr>"
        using r True Some c(1) by (simp add: out_iter_def finish_out_def)
      moreover have "out_inv rs0 w0 (s\<lparr>reads := rs, ws := c, outRunning := False\<rparr>)"
        unfolding out_inv_def
        using c(2,3) u' w p f True Some sent_shape_close [OF sh] normalClose_fits
        by (auto intro!: exI [of _ "used @ [(d, err)]"]
            exI [of _ "ms @ [(CloseMessage, normalClose)]"] simp: message_type_defs)
      ultimately show ?thesis by simp
    qed
  qed
qed

lemma in_iter_ws:
  obtains ev c where "rm (ws s) = (ev, c)" "ws (in_iter rm s) = c"
    "reads (in_iter rm s) = reads s" "outRunning (in_iter rm s) = outRunning s"
  by (cases "rm (ws s)"; cases "fst (rm (ws s))")
    (auto simp: in_iter_def finish_in_def split: prod.splits option.splits)

lemma out_inv_in_iter:
  assumes inv: "out_inv rs0 w0 s"
  shows "out_inv rs0 w0 (in_iter rm s)"
proof -
  obtain ev c where r: "rm (ws s) = (ev, c)" and t: "ws (in_iter rm s) = c"
    "reads (in_iter rm s) = reads s" "outRunning (in_iter rm s) = outRunning s"
    by (rule in_iter_ws)
  from inv obtain used ms where h: "healthy (ws s)" and u: "rs0 = used @ reads s"
    and w: "wire (ws s) = w0 @ encode_all enc ms" and sh: "sent_shape (outRunning s) ms"
    and p: "payloads {BinaryMessage} ms = concat (map fst used)"
    and f: "\<forall>(t, d) \<in> set ms. fits d \<or> d \<in> fst ` set used"
    and l: "outRunning s \<or> (\<exists>us e. used = us @ [([], Some e)])"
    by (auto simp: out_inv_def)
  from read_any [OF h r] have hc: "healthy c"
    and cs: "wire c = wire (ws s) \<or> (\<exists>p. fits p \<and> wire c = wire (ws s) @ enc PongMessage p)"
    by auto
  have "\<exists>xs. wire c = wire (ws s) @ encode_all enc xs \<and>
      (xs = [] \<or> (\<exists>p. fits p \<and> xs = [(PongMessage, p)]))"
    using cs
  proof
    assume "wire c = wire (ws s)"
    then show ?thesis by (intro exI [of _ "[]"]) simp
  next
    assume "\<exists>p. fits p \<and> wire c = wire (ws s) @ enc PongMessage p"
    then obtain p where "fits p" "wire c = wire (ws s) @ enc PongMessage p" by blast
    then show ?thesis by (intro exI [of _ "[(PongMessage, p)]"]) simp
  qed
  then obtain xs where xs: "wire c = wire (ws s) @ encode_all enc xs"
    and x: "xs = [] \<or> (\<exists>p. fits p \<and> xs = [(PongMessage, p)])" by blast
  have "payloads {BinaryMessage} xs = []" using x by (auto simp: message_type_defs)
  moreover have "sent_shape (outRunning s) (ms @ xs)"
    using x sh sent_shape_pong by auto
  ultimately show ?thesis
    unfolding out_inv_def t using hc u w xs p f l x
    by (intro conjI exI [of _ used] exI [of _ "ms @ xs"]) auto
qed

lemma out_inv_run: "out_inv rs0 w0 s \<Longrightarrow> out_inv rs0 w0 (pipe_run wr rm bs s)"
proof (induction bs arbitrary: s)
  case (Cons b bs)
  then show ?case
    by (cases b; cases "reads s = []")
      (simp_all add: out_inv_in_iter out_inv_out_iter out_iter_blocked)
qed simp

text \<open>The inbound invariant: the peer has sent the messages \<open>pre\<close>, a close message and anything
  after it.\<close>

definition in_inv :: "msg list \<Rightarrow> byte list \<Rightarrow> byte list \<Rightarrow> byte list \<Rightarrow> nat \<Rightarrow> 'c pipe \<Rightarrow> bool" where
  "in_inv pre cl tail t0 left s \<longleftrightarrow>
     healthy (ws s) \<and> limit (tcp s) = None \<and>
     (\<exists>ok todo. pre = ok @ todo \<and> length todo \<le> left \<and>
        sent (tcp s) = t0 @ payloads {BinaryMessage, TextMessage} ok \<and>
        (inRunning s \<longrightarrow> pending (ws s) = encode_all penc todo @ penc CloseMessage cl @ tail) \<and>
        (\<not> inRunning s \<longrightarrow> todo = [] \<and> tcpClosed s))"

lemma in_invI:
  assumes "healthy (ws s)" "limit (tcp s) = None" "pre = ok @ todo" "length todo \<le> n"
    "sent (tcp s) = t0 @ payloads {BinaryMessage, TextMessage} ok"
    "inRunning s \<Longrightarrow> pending (ws s) = encode_all penc todo @ penc CloseMessage cl @ tail"
    "\<not> inRunning s \<Longrightarrow> todo = [] \<and> tcpClosed s"
  shows "in_inv pre cl tail t0 n s"
  using assms unfolding in_inv_def by blast

lemma in_invE:
  assumes "in_inv pre cl tail t0 n s"
  obtains ok todo where "healthy (ws s)" "limit (tcp s) = None" "pre = ok @ todo" "length todo \<le> n"
    "sent (tcp s) = t0 @ payloads {BinaryMessage, TextMessage} ok"
    "inRunning s \<Longrightarrow> pending (ws s) = encode_all penc todo @ penc CloseMessage cl @ tail"
    "\<not> inRunning s \<Longrightarrow> todo = [] \<and> tcpClosed s"
  using assms unfolding in_inv_def by blast

lemma in_inv_mono:
  assumes "in_inv pre cl tail t0 n s" "n \<le> n'"
  shows "in_inv pre cl tail t0 n' s"
  using assms(1) by (rule in_invE) (rule in_invI, use assms(2) in auto)

lemma in_inv_frame:
  assumes "in_inv pre cl tail t0 n s" "healthy (ws s')" "pending (ws s') = pending (ws s)"
    "tcp s' = tcp s" "tcpClosed s' = tcpClosed s" "inRunning s' = inRunning s"
  shows "in_inv pre cl tail t0 n s'"
  using assms(1) by (rule in_invE) (rule in_invI, use assms(2-) in auto)

lemma in_inv_out_iter:
  assumes "in_inv pre cl tail t0 n s"
  shows "in_inv pre cl tail t0 n (out_iter wr s)"
proof (cases "reads s")
  case (Cons r rs)
  have h: "healthy (ws s)" using assms by (simp add: in_inv_def)
  obtain c1 where c1: "wr (ws s) BinaryMessage (fst r) = (None, c1)" "healthy c1"
    "pending c1 = pending (ws s)" using write_law [OF h] by blast
  obtain c2 where c2: "wr (ws s) CloseMessage normalClose = (None, c2)" "healthy c2"
    "pending c2 = pending (ws s)" using write_law [OF h] by blast
  from Cons have "out_iter wr s =
      (if fst r \<noteq> [] then s\<lparr>reads := rs, ws := c1\<rparr>
       else if snd r \<noteq> None then s\<lparr>reads := rs, ws := c2, outRunning := False\<rparr>
       else s\<lparr>reads := rs\<rparr>)"
    using c1(1) c2(1) by (cases r) (auto simp: out_iter_def finish_out_def)
  with c1(2,3) c2(2,3) h show ?thesis by (intro in_inv_frame [OF assms]) simp_all
qed (use assms in \<open>simp add: out_iter_blocked\<close>)

lemma in_inv_in_iter:
  assumes inv: "in_inv pre cl tail t0 n s" and run: "inRunning s"
    and pre: "\<forall>(t, d) \<in> set pre. fits d \<and> t \<in> {BinaryMessage, TextMessage, PingMessage, PongMessage}"
    and cl: "fits cl"
  shows "in_inv pre cl tail t0 (n - 1) (in_iter rm s)" "n = 0 \<Longrightarrow> \<not> inRunning (in_iter rm s)"
proof -
  from inv run obtain ok todo where h: "healthy (ws s)" and lim: "limit (tcp s) = None"
    and ms: "pre = ok @ todo" and len: "length todo \<le> n"
    and snt: "sent (tcp s) = t0 @ payloads {BinaryMessage, TextMessage} ok"
    and pend: "pending (ws s) = encode_all penc todo @ penc CloseMessage cl @ tail"
    by (auto simp: in_inv_def)
  have "in_inv pre cl tail t0 (n - 1) (in_iter rm s) \<and> (n = 0 \<longrightarrow> \<not> inRunning (in_iter rm s))"
  proof (cases todo)
    case Nil
    with pend obtain c where c: "rm (ws s) = (Fail CloseMessage [] EOF, c)"
      using read_close [OF h cl] by auto
    then have "in_iter rm s = s\<lparr>ws := c, tcpClosed := True, inRunning := False\<rparr>"
      by (simp add: in_iter_def finish_in_def)
    with read_any [OF h c] Nil ms snt lim show ?thesis by (simp add: in_inv_def)
  next
    case (Cons m todo')
    obtain t d where m: "m = (t, d)" by (cases m)
    from pre ms Cons m have fd: "fits d" and
      t: "t \<in> {BinaryMessage, TextMessage, PingMessage, PongMessage}" by auto
    have p: "pending (ws s) = penc t d @ encode_all penc todo' @ penc CloseMessage cl @ tail"
      using pend Cons m by simp
    show ?thesis
    proof (cases "t \<in> {BinaryMessage, TextMessage}")
      case True
      obtain c where c: "rm (ws s) = (Got t d, c)"
        "pending c = encode_all penc todo' @ penc CloseMessage cl @ tail"
        using read_data [OF h True fd p] by blast
      have "in_iter rm s = s\<lparr>ws := c, tcp := (tcp s)\<lparr>sent := sent (tcp s) @ d\<rparr>\<rparr>"
        using c(1) True lim by (auto simp: in_iter_def io_simps)
      with read_any [OF h c(1)] True c(2) m Cons ms snt lim run len show ?thesis
        by (auto intro!: in_invI [of _ _ "ok @ [m]" todo'])
    next
      case False
      with t have t': "t \<in> {PingMessage, PongMessage}" by auto
      obtain c where c: "rm (ws s) = (Skip, c)"
        "pending c = encode_all penc todo' @ penc CloseMessage cl @ tail"
        using read_control [OF h t' fd p] by blast
      have "in_iter rm s = s\<lparr>ws := c\<rparr>" using c(1) by (simp add: in_iter_def)
      with read_any [OF h c(1)] False c(2) m Cons ms snt lim run len show ?thesis
        by (auto intro!: in_invI [of _ _ "ok @ [m]" todo'])
    qed
  qed
  then show "in_inv pre cl tail t0 (n - 1) (in_iter rm s)"
    "n = 0 \<Longrightarrow> \<not> inRunning (in_iter rm s)" by auto
qed

lemma in_inv_run:
  assumes "in_inv pre cl tail t0 n s"
    and pre: "\<forall>(t, d) \<in> set pre. fits d \<and> t \<in> {BinaryMessage, TextMessage, PingMessage, PongMessage}"
    and cl: "fits cl"
  shows "in_inv pre cl tail t0 n (pipe_run wr rm bs s)"
    "n < count_list bs False \<Longrightarrow> \<not> inRunning (pipe_run wr rm bs s)"
  using assms(1)
proof (induction bs arbitrary: n s)
  case (Cons b bs)
  {
    case 1
    have "in_inv pre cl tail t0 n (in_iter rm s)" if "inRunning s"
      using in_inv_in_iter(1) [OF 1 that pre cl] by (rule in_inv_mono) simp
    with 1 Cons.IH(1) show ?case by (cases b) (simp_all add: in_inv_out_iter)
  next
    case 2
    show ?case
    proof (cases "b \<or> \<not> inRunning s")
      case True
      with 2 show ?thesis
        using Cons.IH(2) [of n s] Cons.IH(2) [of n "out_iter wr s"] stopped_stays
        by (cases b) (auto simp: in_inv_out_iter)
    next
      case False
      with in_inv_in_iter [OF 2(2) _ pre cl] have i: "in_inv pre cl tail t0 (n - 1) (in_iter rm s)"
        and z: "n = 0 \<Longrightarrow> \<not> inRunning (in_iter rm s)" by auto
      show ?thesis
      proof (cases "n = 0")
        case True
        with z stopped_stays False show ?thesis by simp
      next
        case n: False
        with 2(1) False have "n - 1 < count_list bs False" by simp
        from Cons.IH(2) [OF this i] False show ?thesis by simp
      qed
    qed
  }
qed simp_all

lemma inbound_delivery:
  assumes h: "healthy c" and lim: "limit k = None"
    and p: "pending c = encode_all penc pre @ penc CloseMessage cl @ tail"
    and pre: "\<forall>(t, d) \<in> set pre. fits d \<and> t \<in> {BinaryMessage, TextMessage, PingMessage, PongMessage}"
    and cl: "fits cl" and n: "length (pending c) \<le> count_list bs False"
  shows "let s = pipe_run wr rm bs (start_pipe rs k c) in
    sent (tcp s) = sent k @ payloads {BinaryMessage, TextMessage} pre \<and> tcpClosed s \<and> \<not> inRunning s"
proof -
  have i: "in_inv pre cl tail (sent k) (length pre) (start_pipe rs k c)"
    using h lim p by (intro in_invI [of _ _ "[]" pre]) (simp_all add: start_pipe_def)
  have "length pre \<le> length (encode_all penc pre)"
  proof (induction pre)
    case (Cons m ms)
    obtain t d where "m = (t, d)" by (cases m)
    with Cons penc_ne [of t d] show ?case by (cases "penc t d") auto
  qed simp
  with penc_ne [of CloseMessage cl] p n have "length pre < count_list bs False"
    by (cases "penc CloseMessage cl") auto
  with in_inv_run [OF i pre cl, of bs] show ?thesis
    by (elim in_invE) (simp add: Let_def)
qed

end

subsection \<open>The program's connection keeps the contract\<close>

definition wst_ready :: "bool \<Rightarrow> Conn \<Rightarrow> bool" where
  "wst_ready m c \<longleftrightarrow> bw_ok (bufw c) \<and> bbuf (bufw c) = [] \<and> masking c = m \<and> pingHandler c = ReplyPing"

lemma WriteMessage_ready:
  assumes "wst_ready m c"
  shows "\<exists>c'. WriteMessage c t d = (None, c') \<and> wst_ready m c' \<and>
    on_wire c' = on_wire c @ frame_bytes m t d \<and> rd c' = rd c"
proof -
  from assms have ok: "bw_ok (bufw c)" and e: "bbuf (bufw c) = []" "masking c = m"
    "pingHandler c = ReplyPing" by (simp_all add: wst_ready_def)
  obtain b where "WriteMessage c t d = (None, c\<lparr>bufw := b\<rparr>)" "bw_ok b" "bbuf b = []"
    "sent (bsink b) = accepted (bufw c) @ frame_bytes (masking c) t d"
    by (rule WriteMessage_ok [OF ok])
  with e show ?thesis by (simp add: wst_ready_def on_wire_def accepted_def)
qed

definition only_rd :: "Conn \<Rightarrow> (go_error + 'a) \<times> Conn \<Rightarrow> bool" where
  "only_rd c r \<longleftrightarrow> snd r = c\<lparr>rd := rd (snd r)\<rparr>"

lemma only_rd_try:
  assumes "only_rd c r" "\<And>a c1. c1 = c\<lparr>rd := rd c1\<rparr> \<Longrightarrow> only_rd c1 (f a c1)"
  shows "only_rd c (try_io r f)"
proof (cases r)
  case (Pair x c1)
  with assms(1) have c1: "c1 = c\<lparr>rd := rd c1\<rparr>" by (simp add: only_rd_def)
  show ?thesis
  proof (cases x)
    case (Inr a)
    obtain y c2 where f: "f a c1 = (y, c2)" by (cases "f a c1")
    with assms(2) [OF c1, of a] have "c2 = c1\<lparr>rd := rd c2\<rparr>" by (simp add: only_rd_def)
    also have "c1\<lparr>rd := rd c2\<rparr> = c\<lparr>rd := rd c2\<rparr>" by (subst c1) simp
    finally show ?thesis using Pair Inr f by (simp add: only_rd_def)
  qed (use Pair c1 in \<open>simp add: only_rd_def\<close>)
qed

lemma only_rd_return: "only_rd c (x, c)"
  by (simp add: only_rd_def)

lemma only_rd_full: "only_rd c (rd_full n c)"
  by (simp add: only_rd_def rd_full_def split: prod.splits)

lemma only_rd_byte: "only_rd c (rd_byte c)"
  by (simp add: only_rd_def rd_byte_def split: list.splits)

lemmas only_rd_ops = only_rd_return only_rd_full only_rd_byte

lemma readFrame_only_rd: "only_rd c (readFrame c)"
  unfolding readFrame_def read_length_def read_mask_def Let_def
  by (intro only_rd_try only_rd_ops) (simp_all add: only_rd_ops only_rd_try)

lemma readStep_ready:
  assumes r: "wst_ready m c" and s: "readStep c = (ev, c')"
  shows "wst_ready m c' \<and> (on_wire c' = on_wire c \<or>
    (\<exists>p. fits p \<and> on_wire c' = on_wire c @ frame_bytes m PongMessage p))"
proof -
  obtain x c1 where f: "readFrame c = (x, c1)" by (cases "readFrame c")
  with readFrame_only_rd [of c] have c1: "c1 = c\<lparr>rd := rd c1\<rparr>" by (simp add: only_rd_def)
  have r1: "wst_ready m c1" "on_wire c1 = on_wire c"
    by (subst c1, use r in \<open>simp add: wst_ready_def on_wire_def\<close>)+
  show ?thesis
  proof (cases "\<exists>p. x = Inr (PingMessage, p)")
    case True
    then obtain p where x: "x = Inr (PingMessage, p)" by blast
    with f have "fits p" by (auto elim: readFrame_consumes)
    moreover obtain c2 where "WriteMessage c1 PongMessage p = (None, c2)" "wst_ready m c2"
      "on_wire c2 = on_wire c1 @ frame_bytes m PongMessage p"
      using WriteMessage_ready [OF r1(1)] by blast
    moreover from this have "readStep c = (Skip, c2)"
      using f x r1(1) by (intro readStep_ping) (auto simp: callPingHandler_def wst_ready_def)
    ultimately show ?thesis using s r1(2) by auto
  next
    case False
    with f s have "c' = c1"
      by (auto simp: readStep_def split: sum.splits prod.splits if_splits)
    with r1 show ?thesis by simp
  qed
qed

lemma frame_bytes_ne: "frame_bytes m t d \<noteq> []"
  by (simp add: frame_bytes_def)

interpretation wst: duplex WriteMessage readStep "wst_ready m" on_wire rd "frame_bytes m" "frame_bytes m'"
  for m m'
proof
  fix c :: Conn and t d rest
  assume r: "wst_ready m c" and f: "fits d"
  {
    assume t: "t \<in> {BinaryMessage, TextMessage}" and "rd c = frame_bytes m' t d @ rest"
    with f have "readFrame c = (Inr (t, d), c\<lparr>rd := rest\<rparr>)"
      by (intro readFrame_frame_bytes) (auto simp: message_type_defs)
    with t show "\<exists>c'. readStep c = (Got t d, c') \<and> rd c' = rest"
      by (intro exI [of _ "c\<lparr>rd := rest\<rparr>"]) (auto simp: readStep_data message_type_defs)
  next
    assume t: "t \<in> {PingMessage, PongMessage}" and "rd c = frame_bytes m' t d @ rest"
    with f have *: "readFrame c = (Inr (t, d), c\<lparr>rd := rest\<rparr>)"
      by (intro readFrame_frame_bytes) (auto simp: message_type_defs)
    have r': "wst_ready m (c\<lparr>rd := rest\<rparr>)" using r by (simp add: wst_ready_def)
    obtain c2 where c2: "WriteMessage (c\<lparr>rd := rest\<rparr>) PongMessage d = (None, c2)" "rd c2 = rest"
      using WriteMessage_ready [OF r'] by fastforce
    with r' have "callPingHandler (c\<lparr>rd := rest\<rparr>) d = (None, c2)"
      by (simp add: callPingHandler_def wst_ready_def)
    with * c2 t readStep_ping readStep_pong show "\<exists>c'. readStep c = (Skip, c') \<and> rd c' = rest"
      by fastforce
  next
    assume "rd c = frame_bytes m' CloseMessage d @ rest"
    with f have "readFrame c = (Inr (CloseMessage, d), c\<lparr>rd := rest\<rparr>)"
      by (intro readFrame_frame_bytes) (auto simp: message_type_defs)
    with readStep_close show "\<exists>c'. readStep c = (Fail CloseMessage [] EOF, c')" by blast
  }
qed (simp_all add: WriteMessage_ready readStep_ready frame_bytes_ne)

subsection \<open>Two byte streams\<close>

text \<open>\<open>PipeBiDir\<close> copies between two streams. A stream is what will be read from it, what was
  written to it and whether it is closed; a closed stream refuses both. A round of \<^verbatim>\<open>io.Copy\<close> reads
  once, writes what it read and stops at a write error or at the end of the source.\<close>

record endpoint =
  toRead :: "tcp_read list"
  written :: sink
  closed :: bool

definition ep_read :: "endpoint \<Rightarrow> (tcp_read \<times> endpoint) option" where
  "ep_read e = (if closed e then Some (([], Some ErrClosed), e)
     else (case toRead e of [] \<Rightarrow> None | r # rs \<Rightarrow> Some (r, e\<lparr>toRead := rs\<rparr>)))"

definition ep_write :: "endpoint \<Rightarrow> byte list \<Rightarrow> go_error option \<times> endpoint" where
  "ep_write e d = (if closed e then (Some ErrClosed, e)
     else (case sink_write (written e) d of (r, k) \<Rightarrow> (r, e\<lparr>written := k\<rparr>)))"

text \<open>One round of the copy; the flag says that it has returned. \<open>None\<close>: blocked on the read.\<close>

definition copy_round :: "endpoint \<Rightarrow> endpoint \<Rightarrow> (bool \<times> endpoint \<times> endpoint) option" where
  "copy_round src dst =
     (case ep_read src of
        None \<Rightarrow> None
      | Some ((d, err), src') \<Rightarrow>
          if d \<noteq> [] then
            (case ep_write dst d of
               (Some e, dst') \<Rightarrow> Some (True, src', dst')
             | (None, dst') \<Rightarrow> Some (err \<noteq> None, src', dst'))
          else Some (err \<noteq> None, src', dst))"

record bidir =
  rwc1 :: endpoint
  rwc2 :: endpoint
  running12 :: bool
  running21 :: bool

abbreviation shut :: "endpoint \<Rightarrow> endpoint" where
  "shut e \<equiv> e\<lparr>closed := True\<rparr>"

definition bidir12 :: "bidir \<Rightarrow> bidir" where
  "bidir12 s = (case copy_round (rwc1 s) (rwc2 s) of
      None \<Rightarrow> s
    | Some (True, a, b) \<Rightarrow> s\<lparr>rwc1 := shut a, rwc2 := shut b, running12 := False\<rparr>
    | Some (False, a, b) \<Rightarrow> s\<lparr>rwc1 := a, rwc2 := b\<rparr>)"

definition bidir21 :: "bidir \<Rightarrow> bidir" where
  "bidir21 s = (case copy_round (rwc2 s) (rwc1 s) of
      None \<Rightarrow> s
    | Some (True, b, a) \<Rightarrow> s\<lparr>rwc1 := shut a, rwc2 := shut b, running21 := False\<rparr>
    | Some (False, b, a) \<Rightarrow> s\<lparr>rwc1 := a, rwc2 := b\<rparr>)"

fun PipeBiDir :: "bool list \<Rightarrow> bidir \<Rightarrow> bidir" where
  "PipeBiDir [] s = s"
| "PipeBiDir (True # bs) s = PipeBiDir bs (if running12 s then bidir12 s else s)"
| "PipeBiDir (False # bs) s = PipeBiDir bs (if running21 s then bidir21 s else s)"

definition start_bidir :: "endpoint \<Rightarrow> endpoint \<Rightarrow> bidir" where
  "start_bidir a b = \<lparr>rwc1 = a, rwc2 = b, running12 = True, running21 = True\<rparr>"

text \<open>What a copy has moved: the bytes of the reads it used, short of what a failed write lost.\<close>

definition copied :: "endpoint \<Rightarrow> endpoint \<Rightarrow> endpoint \<Rightarrow> endpoint \<Rightarrow> bool" where
  "copied src0 src dst0 dst \<longleftrightarrow>
     (\<exists>used. toRead src0 = used @ toRead src \<and>
        prefix (sent (written dst)) (sent (written dst0) @ concat (map fst used)) \<and>
        (\<not> closed dst \<longrightarrow> sent (written dst) = sent (written dst0) @ concat (map fst used)))"

definition bidir_inv :: "bidir \<Rightarrow> bidir \<Rightarrow> bool" where
  "bidir_inv s0 s \<longleftrightarrow>
     copied (rwc1 s0) (rwc1 s) (rwc2 s0) (rwc2 s) \<and> copied (rwc2 s0) (rwc2 s) (rwc1 s0) (rwc1 s) \<and>
     closed (rwc1 s) = closed (rwc2 s) \<and>
     closed (rwc1 s) = (\<not> (running12 s \<and> running21 s))"

lemma copy_round_open:
  assumes "copy_round src dst = Some (fin, src', dst')" "\<not> closed src" "\<not> closed dst"
  obtains d err where "toRead src = (d, err) # toRead src'" "\<not> closed src'" "\<not> closed dst'"
    "written src' = written src" "toRead dst' = toRead dst"
    "prefix (sent (written dst')) (sent (written dst) @ d)"
    "\<not> fin \<Longrightarrow> sent (written dst') = sent (written dst) @ d"
proof -
  from assms(1,2) obtain d err rs where r: "toRead src = (d, err) # rs"
    by (auto simp: copy_round_def ep_read_def split: list.splits)
  show ?thesis
  proof (cases rule: sink_write_cases [of "written dst" d])
    case (1 k)
    with assms r show ?thesis
      by (intro that [of d err]) (auto simp: copy_round_def ep_read_def ep_write_def split: if_splits)
  next
    case (2 e k)
    with assms r show ?thesis
      by (intro that [of d err]) (auto simp: copy_round_def ep_read_def ep_write_def split: if_splits)
  qed
qed

lemma copy_round_closed: "closed src \<Longrightarrow> copy_round src dst = Some (True, src, dst)"
  by (simp add: copy_round_def ep_read_def)

lemma copied_frame:
  assumes "copied a b c d" "toRead b' = toRead b" "written d' = written d"
    "closed d' \<or> closed d' = closed d"
  shows "copied a b' c d'"
  using assms unfolding copied_def by auto

lemma copied_step:
  assumes c: "copied a b c d" and "\<not> closed d" and r: "toRead b = (x, err) # toRead b'"
    and w: "prefix (sent (written d')) (sent (written d) @ x)"
    and e: "\<not> closed d' \<Longrightarrow> sent (written d') = sent (written d) @ x"
  shows "copied a b' c d'"
proof -
  from c assms(2) obtain used where "toRead a = used @ toRead b"
    "sent (written d) = sent (written c) @ concat (map fst used)" by (auto simp: copied_def)
  with r w e show ?thesis
    unfolding copied_def by (intro exI [of _ "used @ [(x, err)]"]) auto
qed

lemma bidir_inv_closed:
  assumes "bidir_inv s0 s" "closed (rwc1 s)"
  shows "bidir_inv s0 (bidir12 s)" "\<not> running12 (bidir12 s)"
    "bidir_inv s0 (bidir21 s)" "\<not> running21 (bidir21 s)"
  using assms unfolding bidir_inv_def bidir12_def bidir21_def
  by (auto simp: copy_round_closed elim: copied_frame)

lemma bidir_inv_12:
  assumes inv: "bidir_inv s0 s" and run: "running12 s" "running21 s"
  shows "bidir_inv s0 (bidir12 s)"
proof (cases "copy_round (rwc1 s) (rwc2 s)")
  case (Some z)
  obtain fin a b where z: "z = (fin, a, b)" by (cases z)
  from inv run have o: "\<not> closed (rwc1 s)" "\<not> closed (rwc2 s)"
    and c: "copied (rwc1 s0) (rwc1 s) (rwc2 s0) (rwc2 s)" "copied (rwc2 s0) (rwc2 s) (rwc1 s0) (rwc1 s)"
    by (auto simp: bidir_inv_def)
  show ?thesis
  proof (rule copy_round_open [OF Some [unfolded z] o])
    fix d err
    assume r: "toRead (rwc1 s) = (d, err) # toRead a" "\<not> closed a" "\<not> closed b"
      "written a = written (rwc1 s)" "toRead b = toRead (rwc2 s)"
      "prefix (sent (written b)) (sent (written (rwc2 s)) @ d)"
      "\<not> fin \<Longrightarrow> sent (written b) = sent (written (rwc2 s)) @ d"
    have "copied (rwc1 s0) (if fin then shut a else a) (rwc2 s0) (if fin then shut b else b)"
      by (rule copied_step [OF c(1) o(2)]) (use r in auto)
    moreover have "copied (rwc2 s0) (if fin then shut b else b) (rwc1 s0) (if fin then shut a else a)"
      by (rule copied_frame [OF c(2)]) (use r o in auto)
    ultimately show ?thesis
      using Some z r(2,3) run by (cases fin) (auto simp: bidir_inv_def bidir12_def)
  qed
qed (use inv in \<open>simp add: bidir12_def\<close>)

lemma bidir_inv_21:
  assumes inv: "bidir_inv s0 s" and run: "running12 s" "running21 s"
  shows "bidir_inv s0 (bidir21 s)"
proof (cases "copy_round (rwc2 s) (rwc1 s)")
  case (Some z)
  obtain fin a b where z: "z = (fin, b, a)" by (cases z)
  from inv run have o: "\<not> closed (rwc1 s)" "\<not> closed (rwc2 s)"
    and c: "copied (rwc1 s0) (rwc1 s) (rwc2 s0) (rwc2 s)" "copied (rwc2 s0) (rwc2 s) (rwc1 s0) (rwc1 s)"
    by (auto simp: bidir_inv_def)
  show ?thesis
  proof (rule copy_round_open [OF Some [unfolded z] o(2,1)])
    fix d err
    assume r: "toRead (rwc2 s) = (d, err) # toRead b" "\<not> closed b" "\<not> closed a"
      "written b = written (rwc2 s)" "toRead a = toRead (rwc1 s)"
      "prefix (sent (written a)) (sent (written (rwc1 s)) @ d)"
      "\<not> fin \<Longrightarrow> sent (written a) = sent (written (rwc1 s)) @ d"
    have "copied (rwc2 s0) (if fin then shut b else b) (rwc1 s0) (if fin then shut a else a)"
      by (rule copied_step [OF c(2) o(1)]) (use r in auto)
    moreover have "copied (rwc1 s0) (if fin then shut a else a) (rwc2 s0) (if fin then shut b else b)"
      by (rule copied_frame [OF c(1)]) (use r o in auto)
    ultimately show ?thesis
      using Some z r(2,3) run by (cases fin) (auto simp: bidir_inv_def bidir21_def)
  qed
qed (use inv in \<open>simp add: bidir21_def\<close>)

lemma bidir_inv_run: "bidir_inv s0 s \<Longrightarrow> bidir_inv s0 (PipeBiDir bs s)"
proof (induction bs arbitrary: s)
  case (Cons b bs)
  have "bidir_inv s0 (bidir12 s)" if "running12 s"
    using Cons.prems that bidir_inv_closed(1) bidir_inv_12 by (cases "running21 s") (auto simp: bidir_inv_def)
  moreover have "bidir_inv s0 (bidir21 s)" if "running21 s"
    using Cons.prems that bidir_inv_closed(3) bidir_inv_21 by (cases "running12 s") (auto simp: bidir_inv_def)
  ultimately show ?case using Cons by (cases b) simp_all
qed simp

lemma start_bidir_sel: "rwc1 (start_bidir a b) = a" "rwc2 (start_bidir a b) = b"
  by (simp_all add: start_bidir_def)

lemma bidir_inv_start:
  "\<not> closed a \<Longrightarrow> \<not> closed b \<Longrightarrow> bidir_inv (start_bidir a b) (start_bidir a b)"
  by (simp add: bidir_inv_def start_bidir_def copied_def)

lemma bidir21_running12: "running12 (bidir21 s) = running12 s"
  by (simp add: bidir21_def split: option.splits prod.splits bool.splits)

lemma bidir_ends:
  assumes inv: "bidir_inv s0 s" and c: "closed (rwc1 s)"
  shows "\<not> running12 (PipeBiDir [True, False] s) \<and> \<not> running21 (PipeBiDir [True, False] s)"
proof -
  define u where "u = (if running12 s then bidir12 s else s)"
  have u: "bidir_inv s0 u" "\<not> running12 u"
    using bidir_inv_closed(1,2) [OF inv c] inv by (simp_all add: u_def)
  then have "closed (rwc1 u)" unfolding bidir_inv_def by blast
  from bidir_inv_closed(4) [OF u(1) this] u(2) show ?thesis
    by (simp add: u_def [symmetric] bidir21_running12)
qed

subsection \<open>Properties\<close>

lemmas Pipe_runs = Pipe_def [THEN iffD1, THEN reaches_pipe_run]


definition demo_conn :: "bool \<Rightarrow> byte list \<Rightarrow> Conn" where
  "demo_conn m bs = SetPingHandler (NewConn \<lparr>inp = bs, rend = EOF, out = fresh_sink\<rparr> m) (Some ReplyPing)"

definition demo_pipe :: "Conn pipe" where
  "demo_pipe = pipe_run WriteMessage readStep [True, True]
     (start_pipe [([1, 2], None), ([], Some EOF)] fresh_sink (demo_conn True []))"

lemma demo_conn_ready: "wst_ready m (demo_conn m bs)"
  by (simp add: wst_ready_def demo_conn_def SetPingHandler_def NewConn_def NewConnWithReader_def
      fresh_sink_def new_bwriter_def bw_ok_def)

lemma demo_pipe_reached: "Pipe [([1, 2], None), ([], Some EOF)] fresh_sink (demo_conn True []) demo_pipe"
  unfolding Pipe_def demo_pipe_def by (rule pipe_run_reaches)


lemma demo_pipe_value:
  "outRunning demo_pipe = False" "reads demo_pipe = []"
  "on_wire (ws demo_pipe) =
     [0x82, 0x82, 0, 0, 0, 0, 1, 2, 0x88, 0x82, 0, 0, 0, 0, 0x03, 0xE8]"
  by code_simp+

text \<open>C3. End-to-end delivery: when the outbound goroutine of one end has ended, and the other end,
  in any interleaving, gets enough turns of its inbound goroutine on that wire, the bytes written
  to its local side are exactly the bytes the first end read up to the end of its stream; the
  local side is then closed. Neither the masking modes, nor the pings answered meanwhile, nor
  bytes that follow on the wire matter.\<close>

theorem pipe_end_to_end:
  assumes "wst_ready m a" "Pipe rsA kA a sA" "\<not> outRunning sA"
    and "on_wire (ws sA) = on_wire a @ w"
    and "\<forall>r \<in> set rsA. length (fst r) \<le> 32 * 1024"
    and "wst_ready m' b" "rd b = w @ rest" "limit kB = None"
    and "length (rd b) \<le> count_list bs False"
  shows "\<exists>used e. rsA = used @ ([], Some e) # reads sA \<and>
    (let sB = pipe_run WriteMessage readStep bs (start_pipe rsB kB b) in
       sent (tcp sB) = sent kB @ concat (map fst used) \<and> tcpClosed sB \<and> \<not> inRunning sB)"
proof -
  obtain bs' where s: "sA = pipe_run WriteMessage readStep bs' (start_pipe rsA kA a)"
    using Pipe_runs [OF assms(2)] by blast
  have "wst.out_inv m rsA (on_wire a) sA"
    unfolding s by (intro wst.out_inv_run wst.out_inv_start assms(1))
  with assms(3,4) obtain us e ms where u: "rsA = (us @ [([], Some e)]) @ reads sA"
    and w: "w = encode_all (frame_bytes m) ms" and sh: "sent_shape False ms"
    and p: "payloads {BinaryMessage} ms = concat (map fst (us @ [([], Some e)]))"
    and f: "\<forall>(t, d) \<in> set ms. fits d \<or> d \<in> fst ` set (us @ [([], Some e)])"
    unfolding wst.out_inv_def by auto
  from sh obtain pre post where ms: "ms = pre @ (CloseMessage, normalClose) # post"
    and pre: "fst ` set pre \<subseteq> {BinaryMessage, PongMessage}" "fst ` set post \<subseteq> {PongMessage}"
    by (auto simp: sent_shape_def)
  have fit: "fits d" if "(t, d) \<in> set ms" for t d
    using f u assms(5) that by (force simp: maxPayload_def)
  have none: "filter (\<lambda>m. fst m = BinaryMessage) post = []"
    using pre(2) by (auto simp: filter_empty_conv message_type_defs)
  have same: "filter (\<lambda>m. fst m \<in> {BinaryMessage, TextMessage}) pre =
      filter (\<lambda>m. fst m = BinaryMessage) pre"
    using pre(1) by (intro filter_cong) (auto simp: message_type_defs)
  have "payloads {BinaryMessage, TextMessage} pre = concat (map fst us)"
    using p ms none unfolding same by (simp add: message_type_defs)
  moreover have "rd b = encode_all (frame_bytes m) pre @ frame_bytes m CloseMessage normalClose @
      (encode_all (frame_bytes m) post @ rest)"
    using assms(7) w ms by simp
  moreover have "\<forall>(t, d) \<in> set pre. fits d \<and> t \<in> {BinaryMessage, TextMessage, PingMessage, PongMessage}"
    using pre(1) fit ms by fastforce
  ultimately have "let sB = pipe_run WriteMessage readStep bs (start_pipe rsB kB b) in
      sent (tcp sB) = sent kB @ concat (map fst us) \<and> tcpClosed sB \<and> \<not> inRunning sB"
    using wst.inbound_delivery [OF assms(6,8), of m pre normalClose _ bs rsB] assms(9)
      wst.normalClose_fits by simp
  with u show ?thesis by auto
qed

theorem pipe_end_to_end_witness:
  "\<exists>used e. [([1, 2], None), ([], Some EOF)] = used @ ([], Some e) # reads demo_pipe \<and>
    (let sB = pipe_run WriteMessage readStep (replicate 16 False)
        (start_pipe [] fresh_sink (demo_conn False (on_wire (ws demo_pipe)))) in
       sent (tcp sB) = sent fresh_sink @ concat (map fst used) \<and> tcpClosed sB \<and> \<not> inRunning sB)"
proof (rule pipe_end_to_end [OF demo_conn_ready demo_pipe_reached _ _ _ demo_conn_ready])
  show "on_wire (ws demo_pipe) = on_wire (demo_conn True []) @ on_wire (ws demo_pipe)"
    by (simp add: on_wire_def demo_conn_def SetPingHandler_def NewConn_def NewConnWithReader_def
        new_bwriter_def fresh_sink_def)
  show r: "rd (demo_conn False (on_wire (ws demo_pipe))) = on_wire (ws demo_pipe) @ []"
    by (simp add: demo_conn_def SetPingHandler_def NewConn_def NewConnWithReader_def)
  show "length (rd (demo_conn False (on_wire (ws demo_pipe)))) \<le> count_list (replicate 16 False) False"
    unfolding r demo_pipe_value by code_simp
qed (simp_all add: demo_pipe_value fresh_sink_def)


text \<open>\<open>PipeGorilla\<close> over a third-party connection: if that connection keeps the contract of a
  message connection (the hypothesis \<open>duplex\<close>), the wire has the same outbound integrity under
  every interleaving.\<close>

theorem pipe_gorilla_outbound:
  assumes "duplex wr rm healthy wire pending enc penc" "healthy c" "PipeGorilla wr rm rs k c s"
  shows "\<exists>used ms. rs = used @ reads s \<and> wire (ws s) = wire c @ encode_all enc ms \<and>
    sent_shape (outRunning s) ms \<and> payloads {BinaryMessage} ms = concat (map fst used)"
proof -
  obtain bs where s: "s = pipe_run wr rm bs (start_pipe rs k c)"
    using assms(3) reaches_pipe_run unfolding PipeGorilla_def by blast
  have "duplex.out_inv healthy wire enc rs (wire c) s"
    unfolding s
    by (intro duplex.out_inv_run [OF assms(1)] duplex.out_inv_start [OF assms(1)] assms(2))
  then show ?thesis unfolding duplex.out_inv_def [OF assms(1)] by blast
qed

lemma demo_gorilla_reached:
  "PipeGorilla WriteMessage readStep [([1, 2], None), ([], Some EOF)] fresh_sink (demo_conn True []) demo_pipe"
  unfolding PipeGorilla_def demo_pipe_def by (rule pipe_run_reaches)

theorem pipe_gorilla_outbound_witness:
  "duplex WriteMessage readStep (wst_ready True) on_wire rd (frame_bytes True) (frame_bytes False) \<and>
   (\<exists>used ms. [([1, 2], None), ([], Some EOF)] = used @ reads demo_pipe \<and>
     on_wire (ws demo_pipe) = on_wire (demo_conn True []) @ encode_all (frame_bytes True) ms \<and>
     sent_shape (outRunning demo_pipe) ms \<and> payloads {BinaryMessage} ms = concat (map fst used))"
  using wst.duplex_axioms
    pipe_gorilla_outbound [OF wst.duplex_axioms demo_conn_ready demo_gorilla_reached] by blast

definition demo_end :: "tcp_read list \<Rightarrow> endpoint" where
  "demo_end rs = \<lparr>toRead = rs, written = fresh_sink, closed = False\<rparr>"


end
