(* ===== verification/Go_Strings.thy ===== *)
theory Go_Strings
  imports Prelude "HOL-Library.Sublist"
begin

text \<open>
  What the program uses of \<^verbatim>\<open>strings\<close>, \<^verbatim>\<open>strconv\<close> and \<^verbatim>\<open>fmt\<close>: printing and parsing
  decimal numbers, prefixes, splitting, trimming white space and case-insensitive comparison
  with an ASCII word. Strings are byte sequences; the multi-byte characters that these functions
  treat specially (Unicode white space, and the two non-ASCII letters that fold to ASCII ones)
  appear as their UTF-8 encodings.
\<close>

abbreviation chr :: "nat \<Rightarrow> char" where
  "chr n \<equiv> char_of n"

abbreviation code :: "char \<Rightarrow> nat" where
  "code c \<equiv> of_char c"

subsection \<open>Decimal numbers\<close>

definition digit :: "nat \<Rightarrow> char" where
  "digit d = chr (48 + d)"

fun itoa :: "nat \<Rightarrow> string" where
  "itoa n = (if n < 10 then [digit n] else itoa (n div 10) @ [digit (n mod 10)])"

declare itoa.simps [simp del]

abbreviation is_digit :: "char \<Rightarrow> bool" where
  "is_digit c \<equiv> 48 \<le> code c \<and> code c \<le> 57"

datatype num_error = ErrSyntax | ErrRange

text \<open>The loop of \<^verbatim>\<open>strconv.ParseUint\<close> in base 10: a non-digit is a syntax error with value 0,
  a value above the maximum is a range error with the maximum as its value, whatever follows.\<close>

fun parse_digits :: "nat \<Rightarrow> string \<Rightarrow> nat \<Rightarrow> nat \<times> num_error option" where
  "parse_digits m [] n = (n, None)"
| "parse_digits m (c # cs) n =
     (if \<not> is_digit c then (0, Some ErrSyntax)
      else if n * 10 + (code c - 48) > m then (m, Some ErrRange)
      else parse_digits m cs (n * 10 + (code c - 48)))"

definition ParseUint :: "nat \<Rightarrow> string \<Rightarrow> nat \<times> num_error option" where
  "ParseUint bits s = (if s = [] then (0, Some ErrSyntax) else parse_digits (2 ^ bits - 1) s 0)"

lemma code_digit [simp]: "d < 10 \<Longrightarrow> code (digit d) = 48 + d"
  by (simp add: digit_def)

lemma itoa_digits: "c \<in> set (itoa n) \<Longrightarrow> is_digit c"
proof (induction n rule: itoa.induct)
  case (1 n)
  then show ?case by (subst (asm) (2) itoa.simps) (auto split: if_splits)
qed

lemma itoa_ne [simp]: "itoa n \<noteq> []"
  by (subst itoa.simps) simp

lemma parse_digits_append:
  "parse_digits m xs a = (b, None) \<Longrightarrow> parse_digits m (xs @ ys) a = parse_digits m ys b"
  by (induction m xs a rule: parse_digits.induct) (auto split: if_splits)

lemma parse_digits_itoa: "n \<le> m \<Longrightarrow> parse_digits m (itoa n) 0 = (n, None)"
proof (induction n rule: itoa.induct)
  case (1 n)
  show ?case
  proof (cases "n < 10")
    case True
    with 1 show ?thesis by (subst itoa.simps) simp
  next
    case False
    with 1 have "parse_digits m (itoa (n div 10)) 0 = (n div 10, None)" by simp
    from parse_digits_append [OF this] have
      "parse_digits m (itoa n) 0 = parse_digits m [digit (n mod 10)] (n div 10)"
      using False by (subst itoa.simps) simp
    also have "\<dots> = (n, None)" using 1(2) by simp
    finally show ?thesis .
  qed
qed

lemma ParseUint_itoa [addr_simps]: "n < 2 ^ bits \<Longrightarrow> ParseUint bits (itoa n) = (n, None)"
  unfolding ParseUint_def using parse_digits_itoa [of n "2 ^ bits - 1"] by simp

lemma itoa_inject: "itoa a = itoa b \<longleftrightarrow> a = b"
proof
  assume eq: "itoa a = itoa b"
  have "parse_digits (max a b) (itoa a) 0 = (a, None)" by (rule parse_digits_itoa) simp
  moreover have "parse_digits (max a b) (itoa b) 0 = (b, None)" by (rule parse_digits_itoa) simp
  ultimately show "a = b" unfolding eq by simp
qed (rule arg_cong)

lemma parse_digits_le: "parse_digits m s a = (n, r) \<Longrightarrow> a \<le> m \<Longrightarrow> n \<le> m"
  by (induction m s a rule: parse_digits.induct) (auto split: if_splits)

lemma ParseUint_bound: "fst (ParseUint bits s) < 2 ^ bits"
proof -
  have "fst (parse_digits (2 ^ bits - 1) s 0) \<le> 2 ^ bits - 1"
    using parse_digits_le [of "2 ^ bits - 1" s 0] by (cases "parse_digits (2 ^ bits - 1) s 0") auto
  moreover have "(2::nat) ^ bits - 1 < 2 ^ bits" by simp
  ultimately have "fst (parse_digits (2 ^ bits - 1) s 0) < 2 ^ bits" by (rule le_less_trans)
  then show ?thesis by (simp add: ParseUint_def)
qed

subsection \<open>Prefixes and splitting\<close>

definition HasPrefix :: "string \<Rightarrow> string \<Rightarrow> bool" where
  "HasPrefix s p \<longleftrightarrow> take (length p) s = p"

definition TrimPrefix :: "string \<Rightarrow> string \<Rightarrow> string" where
  "TrimPrefix s p = (if HasPrefix s p then drop (length p) s else s)"

lemma HasPrefix_iff: "HasPrefix s p \<longleftrightarrow> prefix p s"
  unfolding HasPrefix_def by (metis append_eq_conv_conj prefix_def take_is_prefix)

lemma TrimPrefix_append [simp]: "TrimPrefix (p @ s) p = s"
  by (simp add: TrimPrefix_def HasPrefix_def)

text \<open>\<^verbatim>\<open>strings.Split\<close> with a one-byte separator, and \<^verbatim>\<open>SplitN(s, sep, 2)\<close>.\<close>

fun Split :: "char \<Rightarrow> string \<Rightarrow> string list" where
  "Split sep [] = [[]]"
| "Split sep (c # cs) = (if c = sep then [] # Split sep cs
     else (case Split sep cs of [] \<Rightarrow> [[c]] | p # ps \<Rightarrow> (c # p) # ps))"

definition SplitN2 :: "char \<Rightarrow> string \<Rightarrow> string list" where
  "SplitN2 sep s = (case dropWhile (\<lambda>c. c \<noteq> sep) s of
     [] \<Rightarrow> [s] | c # rest \<Rightarrow> [takeWhile (\<lambda>c. c \<noteq> sep) s, rest])"

lemma Split_no_sep: "sep \<notin> set s \<Longrightarrow> Split sep s = [s]"
  by (induction s) auto

lemma Split_sep: "sep \<notin> set p \<Longrightarrow> Split sep (p @ sep # s) = p # Split sep s"
  by (induction p) auto

lemma SplitN2_sep: "sep \<notin> set p \<Longrightarrow> SplitN2 sep (p @ sep # s) = [p, s]"
proof -
  assume a: "sep \<notin> set p"
  then have "dropWhile (\<lambda>c. c \<noteq> sep) (p @ sep # s) = sep # s"
    "takeWhile (\<lambda>c. c \<noteq> sep) (p @ sep # s) = p"
    by (induction p) auto
  then show ?thesis by (simp add: SplitN2_def)
qed

text \<open>\<^verbatim>\<open>strings.Contains\<close> and \<^verbatim>\<open>strings.Split\<close> with a separator of several bytes: the part before
  the first occurrence and what follows it.\<close>

fun Cut :: "string \<Rightarrow> string \<Rightarrow> (string \<times> string) option" where
  "Cut sep [] = (if sep = [] then Some ([], []) else None)"
| "Cut sep (c # cs) = (if HasPrefix (c # cs) sep then Some ([], drop (length sep) (c # cs))
     else map_option (\<lambda>(a, b). (c # a, b)) (Cut sep cs))"

definition Contains :: "string \<Rightarrow> string \<Rightarrow> bool" where
  "Contains s sep \<longleftrightarrow> Cut sep s \<noteq> None"

lemma Cut_Some: "Cut sep s = Some (a, b) \<Longrightarrow> s = a @ sep @ b"
proof (induction sep s arbitrary: a rule: Cut.induct)
  case (2 sep c cs)
  show ?case
  proof (cases "HasPrefix (c # cs) sep")
    case True
    with 2(2) show ?thesis by (auto simp: HasPrefix_def) (metis append_take_drop_id)
  next
    case False
    with 2(2) obtain a' where "Cut sep cs = Some (a', b)" "a = c # a'" by auto
    with 2(1) [OF False] show ?thesis by simp
  qed
qed (simp split: if_splits)

subsection \<open>White space\<close>

text \<open>The encodings of the characters with Unicode's White Space property.\<close>

definition spaces :: "string list" where
  "spaces = map (map chr)
     ([[9], [10], [11], [12], [13], [32], [0xC2, 0x85], [0xC2, 0xA0], [0xE1, 0x9A, 0x80]] @
      map (\<lambda>n. [0xE2, 0x80, n]) ([0x80..<0x8B] @ [0xA8, 0xA9, 0xAF]) @
      [[0xE2, 0x81, 0x9F], [0xE3, 0x80, 0x80]])"

fun drop_first :: "string list \<Rightarrow> string \<Rightarrow> string option" where
  "drop_first [] s = None"
| "drop_first (p # ps) s = (if p \<noteq> [] \<and> HasPrefix s p then Some (drop (length p) s) else drop_first ps s)"

lemma drop_first_shorter: "drop_first ps s = Some s' \<Longrightarrow> length s' < length s"
  by (induction ps) (auto simp: HasPrefix_iff prefix_def split: if_splits)

function trim_left :: "string list \<Rightarrow> string \<Rightarrow> string" where
  "trim_left ps s = (case drop_first ps s of None \<Rightarrow> s | Some s' \<Rightarrow> trim_left ps s')"
  by pat_completeness auto
termination
  by (relation "measure (\<lambda>(ps, s). length s)") (auto dest: drop_first_shorter)

declare trim_left.simps [simp del]

definition TrimSpace :: "string \<Rightarrow> string" where
  "TrimSpace s = rev (trim_left (map rev spaces) (rev (trim_left spaces s)))"

lemma drop_first_None_iff: "drop_first ps s = None \<longleftrightarrow> (\<forall>p \<in> set ps. p = [] \<or> \<not> HasPrefix s p)"
  by (induction ps) auto

lemma trim_left_id: "drop_first ps s = None \<Longrightarrow> trim_left ps s = s"
  by (subst trim_left.simps) simp

lemma spaces_first: "p \<in> set spaces \<Longrightarrow> p \<noteq> [] \<and> (code (hd p) \<le> 32 \<or> 128 \<le> code (hd p))"
  by (auto simp: spaces_def)

lemma spaces_last: "p \<in> set spaces \<Longrightarrow> p \<noteq> [] \<and> (code (last p) \<le> 32 \<or> 128 \<le> code (last p))"
  by (auto simp: spaces_def)

lemma no_space_prefix:
  assumes "s \<noteq> [] \<Longrightarrow> 32 < code (hd s) \<and> code (hd s) < 128"
    and "\<forall>p \<in> set ps. p \<noteq> [] \<and> (code (hd p) \<le> 32 \<or> 128 \<le> code (hd p))"
  shows "drop_first ps s = None"
  unfolding drop_first_None_iff
proof
  fix p assume "p \<in> set ps"
  with assms(2) obtain q where "p \<noteq> []" and q: "code (hd p) \<le> 32 \<or> 128 \<le> code (hd p)" by auto
  moreover have "\<not> HasPrefix s p"
  proof
    assume "HasPrefix s p"
    then obtain r where s: "s = p @ r" by (auto simp: HasPrefix_iff prefix_def)
    with \<open>p \<noteq> []\<close> have "s \<noteq> []" "hd s = hd p" by auto
    with assms(1) q show False by auto
  qed
  ultimately show "p = [] \<or> \<not> HasPrefix s p" by simp
qed

text \<open>A string of graphic ASCII characters at both ends is unchanged.\<close>

lemma TrimSpace_id:
  assumes "s \<noteq> [] \<Longrightarrow> 32 < code (hd s) \<and> code (hd s) < 128 \<and> 32 < code (last s) \<and> code (last s) < 128"
  shows "TrimSpace s = s"
proof -
  have l: "trim_left spaces s = s"
    by (rule trim_left_id, rule no_space_prefix) (use assms spaces_first in auto)
  have "trim_left (map rev spaces) (rev s) = rev s"
    by (rule trim_left_id, rule no_space_prefix)
      (use assms spaces_last in \<open>auto simp: hd_rev\<close>)
  with l show ?thesis by (simp add: TrimSpace_def)
qed

subsection \<open>Letter case\<close>

definition lower :: "char \<Rightarrow> char" where
  "lower c = (if 65 \<le> code c \<and> code c \<le> 90 then chr (code c + 32) else c)"

text \<open>\<open>fold_ascii\<close> folds a string as far as a comparison with an ASCII word can see it: besides the
  ASCII capitals, the Kelvin sign U+212A folds to k and the long s U+017F to s.
  \<^verbatim>\<open>strings.ToLower\<close> maps the Kelvin sign to k and U+0130 to i.\<close>

fun fold_ascii :: "string \<Rightarrow> string" where
  "fold_ascii [] = []"
| "fold_ascii (c # cs) =
     (if HasPrefix (c # cs) [chr 0xE2, chr 0x84, chr 0xAA] then chr 107 # fold_ascii (drop 2 cs)
      else if HasPrefix (c # cs) [chr 0xC5, chr 0xBF] then chr 115 # fold_ascii (drop 1 cs)
      else lower c # fold_ascii cs)"

fun ToLower_ascii :: "string \<Rightarrow> string" where
  "ToLower_ascii [] = []"
| "ToLower_ascii (c # cs) =
     (if HasPrefix (c # cs) [chr 0xE2, chr 0x84, chr 0xAA] then chr 107 # ToLower_ascii (drop 2 cs)
      else if HasPrefix (c # cs) [chr 0xC4, chr 0xB0] then chr 105 # ToLower_ascii (drop 1 cs)
      else lower c # ToLower_ascii cs)"

text \<open>\<^verbatim>\<open>strings.EqualFold(s, word)\<close> for an ASCII \<open>word\<close>.\<close>

definition EqualFold :: "string \<Rightarrow> string \<Rightarrow> bool" where
  "EqualFold s word \<longleftrightarrow> fold_ascii s = map lower word"

lemma fold_ascii_ascii: "(\<And>c. c \<in> set s \<Longrightarrow> code c < 128) \<Longrightarrow> fold_ascii s = map lower s"
proof (induction s rule: fold_ascii.induct)
  case (2 c cs)
  have "code c < 128" using 2 by simp
  then have "\<not> HasPrefix (c # cs) [chr 0xE2, chr 0x84, chr 0xAA]" "\<not> HasPrefix (c # cs) [chr 0xC5, chr 0xBF]"
    by (auto simp: HasPrefix_def)
  with 2 show ?case by simp
qed simp

lemma EqualFold_refl: "(\<And>c. c \<in> set s \<Longrightarrow> code c < 128) \<Longrightarrow> EqualFold s s"
  by (simp add: EqualFold_def fold_ascii_ascii)

end
