(* ===== verification/Go_Net.thy ===== *)
theory Go_Net
  imports Go_Strings
begin

text \<open>
  What the program uses of package \<^verbatim>\<open>net\<close>: joining and splitting host and port, IP addresses
  (byte slices of length 4 or 16, the empty list for nil), their parser and printer, and CIDR
  networks. The definitions follow the control flow of the library functions, since the
  restriction rules and the listener table depend on which strings they accept.
\<close>

subsection \<open>Host and port\<close>

definition JoinHostPort :: "string \<Rightarrow> string \<Rightarrow> string" where
  "JoinHostPort host pt =
     (if CHR '':'' \<in> set host then ''['' @ host @ '']:'' @ pt else host @ '':'' @ pt)"

text \<open>The text before and after the last occurrence of a character.\<close>

definition cut_last :: "char \<Rightarrow> string \<Rightarrow> (string \<times> string) option" where
  "cut_last c s = (if c \<in> set s then
     Some (rev (tl (dropWhile (\<lambda>x. x \<noteq> c) (rev s))), rev (takeWhile (\<lambda>x. x \<noteq> c) (rev s))) else None)"

definition SplitHostPort :: "string \<Rightarrow> go_error + string \<times> string" where
  "SplitHostPort hostport =
     (case cut_last CHR '':'' hostport of
        None \<Rightarrow> Inl (Errorf ''missing port in address'')
      | Some (front, pt) \<Rightarrow>
          if hd hostport = CHR ''['' then
            (case dropWhile (\<lambda>c. c \<noteq> CHR '']'') hostport of
               [] \<Rightarrow> Inl (Errorf ''missing ']' in address'')
             | _ # behind \<Rightarrow>
                 let host = tl (takeWhile (\<lambda>c. c \<noteq> CHR '']'') hostport) in
                 if behind = [] then Inl (Errorf ''missing port in address'')
                 else if behind = CHR '':'' # pt then
                   if CHR ''['' \<in> set (tl hostport) then Inl (Errorf ''unexpected '[' in address'')
                   else if CHR '']'' \<in> set behind then Inl (Errorf ''unexpected ']' in address'')
                   else Inr (host, pt)
                 else if hd behind = CHR '':'' then Inl (Errorf ''too many colons in address'')
                 else Inl (Errorf ''missing port in address''))
          else if CHR '':'' \<in> set front then Inl (Errorf ''too many colons in address'')
          else if CHR ''['' \<in> set hostport then Inl (Errorf ''unexpected '[' in address'')
          else if CHR '']'' \<in> set hostport then Inl (Errorf ''unexpected ']' in address'')
          else Inr (front, pt))"

lemma cut_last_append:
  assumes "c \<notin> set b"
  shows "cut_last c (a @ c # b) = Some (a, b)"
proof -
  have "takeWhile (\<lambda>x. x \<noteq> c) (rev b @ c # rev a) = rev b"
    "dropWhile (\<lambda>x. x \<noteq> c) (rev b @ c # rev a) = c # rev a"
    using assms by (auto simp: takeWhile_append dropWhile_append)
  then show ?thesis by (simp add: cut_last_def)
qed

lemma cut_last_Some: "cut_last c s = Some (a, b) \<Longrightarrow> s = a @ c # b"
proof -
  assume s: "cut_last c s = Some (a, b)"
  then have "c \<in> set (rev s)" by (simp add: cut_last_def split: if_splits)
  moreover have "c \<in> set xs \<Longrightarrow> dropWhile (\<lambda>x. x \<noteq> c) xs = c # tl (dropWhile (\<lambda>x. x \<noteq> c) xs)" for xs
    by (induction xs) auto
  ultimately have "dropWhile (\<lambda>x. x \<noteq> c) (rev s) = c # tl (dropWhile (\<lambda>x. x \<noteq> c) (rev s))"
    by blast
  then have "rev s = takeWhile (\<lambda>x. x \<noteq> c) (rev s) @ c # tl (dropWhile (\<lambda>x. x \<noteq> c) (rev s))"
    by (metis takeWhile_dropWhile_id)
  with s show ?thesis unfolding cut_last_def
    by (metis (no_types, lifting) Pair_inject append.assoc append_Cons append_Nil option.distinct(1)
        option.inject rev.simps(2) rev_append rev_rev_ident)
qed

text \<open>A host that was split off consists of characters of the address.\<close>

lemma SplitHostPort_set:
  assumes "SplitHostPort r = Inr (h, p)"
  shows "set h \<subseteq> set r"
proof -
  have tl: "set (tl xs) \<subseteq> set xs" for xs :: string by (cases xs) auto
  obtain a b where c: "cut_last CHR '':'' r = Some (a, b)"
    using assms by (cases "cut_last CHR '':'' r") (auto simp: SplitHostPort_def)
  have "h = a \<or> h = tl (takeWhile (\<lambda>c. c \<noteq> CHR '']'') r)"
    using assms c by (auto simp: SplitHostPort_def Let_def split: if_splits list.splits)
  moreover have "set a \<subseteq> set r" using cut_last_Some [OF c] by auto
  moreover have "set (tl (takeWhile (\<lambda>c. c \<noteq> CHR '']'') r)) \<subseteq> set r"
    using tl set_takeWhileD by fastforce
  ultimately show ?thesis by blast
qed

abbreviation plain_host :: "string \<Rightarrow> bool" where
  "plain_host h \<equiv> CHR ''['' \<notin> set h \<and> CHR '']'' \<notin> set h"

lemma digits_plain:
  "(\<And>c. c \<in> set p \<Longrightarrow> is_digit c) \<Longrightarrow> CHR '':'' \<notin> set p \<and> CHR ''['' \<notin> set p \<and> CHR '']'' \<notin> set p"
  by force

lemmas itoa_plain = digits_plain [OF itoa_digits]

lemma SplitHostPort_JoinHostPort [addr_simps]:
  assumes "plain_host h" "CHR '':'' \<notin> set p" "plain_host p"
  shows "SplitHostPort (JoinHostPort h p) = Inr (h, p)"
proof (cases "CHR '':'' \<in> set h")
  case True
  let ?s = "CHR ''['' # h @ CHR '']'' # CHR '':'' # p"
  have c: "cut_last CHR '':'' ?s = Some (CHR ''['' # h @ '']'', p)"
    using cut_last_append [of "CHR '':''" p "CHR ''['' # h @ '']''"] assms(2) by simp
  have "dropWhile (\<lambda>c. c \<noteq> CHR '']'') ?s = CHR '']'' # CHR '':'' # p"
    "takeWhile (\<lambda>c. c \<noteq> CHR '']'') ?s = CHR ''['' # h"
    using assms(1) by (auto simp: takeWhile_append dropWhile_append)
  with True assms c show ?thesis by (simp add: SplitHostPort_def JoinHostPort_def)
next
  case False
  have c: "cut_last CHR '':'' (h @ CHR '':'' # p) = Some (h, p)"
    by (rule cut_last_append [OF assms(2)])
  have "hd (h @ CHR '':'' # p) \<noteq> CHR ''[''" using assms(1) by (cases h) auto
  with False assms c show ?thesis by (simp add: SplitHostPort_def JoinHostPort_def)
qed

text \<open>The address of a host and a numeric port determines both.\<close>

lemma JoinHostPort_inject:
  assumes "JoinHostPort h (itoa p) = JoinHostPort h' (itoa p')"
  shows "h = h' \<and> p = p'"
proof -
  have split: "\<exists>b. cut_last CHR '':'' (JoinHostPort h (itoa p)) = Some (b, itoa p) \<and>
      b = (if CHR '':'' \<in> set h then CHR ''['' # h @ '']'' else h)" for h p
    using cut_last_append [of "CHR '':''" "itoa p" "CHR ''['' # h @ '']''"]
      cut_last_append [of "CHR '':''" "itoa p" h] itoa_plain
    by (auto simp: JoinHostPort_def)
  from split [of h p] split [of h' p'] assms have
    e: "(if CHR '':'' \<in> set h then CHR ''['' # h @ '']'' else h) =
      (if CHR '':'' \<in> set h' then CHR ''['' # h' @ '']'' else h')" and "itoa p = itoa p'" by auto
  moreover have "h = h'" using e by (auto split: if_splits)
  ultimately show ?thesis by (simp add: itoa_inject)
qed

subsection \<open>IP addresses\<close>

type_synonym IP = "byte list"

definition v4InV6Prefix :: "byte list" where
  "v4InV6Prefix = replicate 10 0 @ [0xFF, 0xFF]"

definition To4 :: "IP \<Rightarrow> IP" where
  "To4 ip = (if length ip = 4 then ip
     else if length ip = 16 \<and> take 12 ip = v4InV6Prefix then drop 12 ip else [])"

definition To16 :: "IP \<Rightarrow> IP" where
  "To16 ip = (if length ip = 4 then v4InV6Prefix @ ip else if length ip = 16 then ip else [])"

text \<open>\<^verbatim>\<open>parseIPv4Fields\<close>: value and length of the current octet, the octets before it.\<close>

fun parse4 :: "string \<Rightarrow> nat \<Rightarrow> nat \<Rightarrow> byte list \<Rightarrow> byte list option" where
  "parse4 [] val digLen fs = (if length fs < 3 then None else Some (fs @ [of_nat val]))"
| "parse4 (c # cs) val digLen fs =
     (if is_digit c then
        if digLen = 1 \<and> val = 0 then None
        else if val * 10 + (code c - 48) > 255 then None
        else parse4 cs (val * 10 + (code c - 48)) (digLen + 1) fs
      else if c = CHR ''.'' then
        if digLen = 0 \<or> cs = [] then None
        else if length fs = 3 then None
        else parse4 cs 0 0 (fs @ [of_nat val])
      else None)"

definition hexval :: "char \<Rightarrow> nat option" where
  "hexval c = (if is_digit c then Some (code c - 48)
     else if 97 \<le> code c \<and> code c \<le> 102 then Some (code c - 87)
     else if 65 \<le> code c \<and> code c \<le> 70 then Some (code c - 55) else None)"

abbreviation is_hex :: "char \<Rightarrow> bool" where
  "is_hex c \<equiv> hexval c \<noteq> None"

definition hexnum :: "string \<Rightarrow> nat" where
  "hexnum cs = foldl (\<lambda>a c. a * 16 + the (hexval c)) 0 cs"

text \<open>The group loop of \<^verbatim>\<open>parseIPv6\<close>: the text left, the bytes so far, the place of the ellipsis.
  The first argument counts the groups that still fit into 16 bytes.\<close>

fun parse6 :: "nat \<Rightarrow> string \<Rightarrow> byte list \<Rightarrow> nat option \<Rightarrow> (string \<times> byte list \<times> nat option) option" where
  "parse6 0 s bs ell = Some (s, bs, ell)"
| "parse6 (Suc k) s bs ell =
     (let h = takeWhile is_hex s; r = dropWhile is_hex s in
      if length h > 4 \<or> h = [] then None
      else if r \<noteq> [] \<and> hd r = CHR ''.'' then
        if ell = None \<and> length bs \<noteq> 12 then None
        else if length bs + 4 > 16 then None
        else map_option (\<lambda>f. ([], bs @ f, ell)) (parse4 s 0 0 [])
      else let bs' = bs @ be_enc 2 (hexnum h) in
        if r = [] then Some ([], bs', ell)
        else if hd r \<noteq> CHR '':'' \<or> tl r = [] then None
        else let s' = tl r in
          if hd s' = CHR '':'' then
            if ell \<noteq> None then None
            else if tl s' = [] then Some ([], bs', Some (length bs'))
            else parse6 k (tl s') bs' (Some (length bs'))
          else parse6 k s' bs' ell)"

definition expand6 :: "string \<times> byte list \<times> nat option \<Rightarrow> byte list option" where
  "expand6 r = (case r of (s, bs, ell) \<Rightarrow>
     if s \<noteq> [] then None
     else if length bs < 16 then
       (case ell of None \<Rightarrow> None
        | Some e \<Rightarrow> Some (take e bs @ replicate (16 - length bs) 0 @ drop e bs))
     else if ell \<noteq> None then None else Some bs)"

definition parseIPv6 :: "string \<Rightarrow> byte list option" where
  "parseIPv6 s =
     (if HasPrefix s ''::'' then
        if drop 2 s = [] then Some (replicate 16 0)
        else Option.bind (parse6 8 (drop 2 s) [] (Some 0)) expand6
      else Option.bind (parse6 8 s [] None) expand6)"

text \<open>\<^verbatim>\<open>net.ParseIP\<close>: the first dot, colon or percent sign decides; a zone is refused.\<close>

definition ParseIP :: "string \<Rightarrow> IP" where
  "ParseIP s =
     (case dropWhile (\<lambda>c. c \<notin> {CHR ''.'', CHR '':'', CHR ''%''}) s of
        [] \<Rightarrow> []
      | c # _ \<Rightarrow>
          if c = CHR ''.'' then (case parse4 s 0 0 [] of None \<Rightarrow> [] | Some f \<Rightarrow> v4InV6Prefix @ f)
          else if c = CHR '':'' then
            if CHR ''%'' \<in> set s then [] else (case parseIPv6 s of None \<Rightarrow> [] | Some ip \<Rightarrow> ip)
          else [])"

subsection \<open>Printing\<close>

fun dotted :: "byte list \<Rightarrow> string" where
  "dotted [] = []"
| "dotted [b] = itoa (unat b)"
| "dotted (b # bs) = itoa (unat b) @ ''.'' @ dotted bs"

definition hexdigit :: "nat \<Rightarrow> char" where
  "hexdigit d = (if d < 10 then chr (48 + d) else chr (87 + d))"

fun hex :: "nat \<Rightarrow> string" where
  "hex n = (if n < 16 then [hexdigit n] else hex (n div 16) @ [hexdigit (n mod 16)])"

declare hex.simps [simp del]

fun groups :: "byte list \<Rightarrow> nat list" where
  "groups (a # b # bs) = (unat a * 256 + unat b) # groups bs"
| "groups _ = []"

text \<open>The longest run of at least two zero groups, the first one among equals.\<close>

definition zero_run :: "nat list \<Rightarrow> nat \<times> nat" where
  "zero_run gs = foldl (\<lambda>(s, e) i. let l = length (takeWhile (\<lambda>g. g = 0) (drop i gs)) in
     if 2 \<le> l \<and> e - s < l then (i, i + l) else (s, e)) (255, 255) [0..<8]"

primrec print6 :: "nat \<Rightarrow> nat list \<Rightarrow> nat \<times> nat \<Rightarrow> nat \<Rightarrow> string" where
  "print6 0 gs z i = []"
| "print6 (Suc k) gs z i =
     (if 8 \<le> i then []
      else if i = fst z then
        ''::'' @ (if 8 \<le> snd z then [] else hex (gs ! snd z) @ print6 k gs z (snd z + 1))
      else (if 0 < i then '':'' else []) @ hex (gs ! i) @ print6 k gs z (i + 1))"

definition IP_String :: "IP \<Rightarrow> string" where
  "IP_String ip =
     (if ip = [] then ''<nil>''
      else if length ip \<noteq> 4 \<and> length ip \<noteq> 16 then
        ''?'' @ concat (map (\<lambda>b. [hexdigit (unat b div 16), hexdigit (unat b mod 16)]) ip)
      else if To4 ip \<noteq> [] then dotted (To4 ip)
      else print6 8 (groups ip) (zero_run (groups ip)) 0)"

subsection \<open>Networks\<close>

record IPNet =
  netIP :: IP
  netMask :: "byte list"

definition CIDRMask :: "nat \<Rightarrow> nat \<Rightarrow> byte list" where
  "CIDRMask ones len = map (\<lambda>i. of_nat (256 - 2 ^ (8 - min 8 (ones - 8 * i)))) [0..<len]"

definition mask_ip :: "IP \<Rightarrow> byte list \<Rightarrow> IP" where
  "mask_ip ip m = map2 (AND) ip m"

text \<open>\<^verbatim>\<open>dtoi\<close>: leading digits; fails on none and from 0xFFFFFF on.\<close>

definition dtoi :: "string \<Rightarrow> nat option" where
  "dtoi s = (if s = [] \<or> \<not> list_all is_digit s then None
     else let n = foldl (\<lambda>a c. a * 10 + (code c - 48)) 0 s in if n \<ge> 0xFFFFFF then None else Some n)"

definition ParseCIDR :: "string \<Rightarrow> go_error + IPNet" where
  "ParseCIDR s =
     (case SplitN2 CHR ''/'' s of
        [a, ones] \<Rightarrow>
          (let ip = ParseIP a; is4 = CHR '':'' \<notin> set a; len = (if is4 then 4 else 16) in
           if ip = [] then Inl (Errorf ''invalid CIDR address'')
           else (case dtoi ones of
               None \<Rightarrow> Inl (Errorf ''invalid CIDR address'')
             | Some n \<Rightarrow>
                 if n > 8 * len then Inl (Errorf ''invalid CIDR address'')
                 else let m = CIDRMask n len in
                   Inr \<lparr>netIP = mask_ip (if is4 then drop 12 ip else ip) m, netMask = m\<rparr>))
      | _ \<Rightarrow> Inl (Errorf ''invalid CIDR address''))"

definition networkNumberAndMask :: "IPNet \<Rightarrow> IP \<times> byte list" where
  "networkNumberAndMask n =
     (let ip = (if To4 (netIP n) \<noteq> [] then To4 (netIP n) else netIP n) in
      if length ip \<noteq> 4 \<and> length ip \<noteq> 16 then ([], [])
      else if length (netMask n) = 4 then (if length ip \<noteq> 4 then ([], []) else (ip, netMask n))
      else if length (netMask n) = 16 then (ip, if length ip = 4 then drop 12 (netMask n) else netMask n)
      else ([], []))"

definition NetContains :: "IPNet \<Rightarrow> IP \<Rightarrow> bool" where
  "NetContains n ip =
     (let (nn, m) = networkNumberAndMask n; x = (if To4 ip \<noteq> [] then To4 ip else ip) in
      length x = length nn \<and> mask_ip nn m = mask_ip x m)"

subsection \<open>Dotted addresses and their networks\<close>

lemma parse4_itoa:
  "v \<le> 255 \<Longrightarrow> parse4 (itoa v @ cs) 0 0 fs = parse4 cs v (length (itoa v)) fs"
proof (induction v arbitrary: cs rule: itoa.induct)
  case (1 v)
  show ?case
  proof (cases "v < 10")
    case True
    then show ?thesis by (subst (1 2) itoa.simps) simp
  next
    case False
    then have i: "itoa v = itoa (v div 10) @ [digit (v mod 10)]" by (subst itoa.simps) simp
    have "parse4 (itoa (v div 10) @ ([digit (v mod 10)] @ cs)) 0 0 fs =
        parse4 ([digit (v mod 10)] @ cs) (v div 10) (length (itoa (v div 10))) fs"
      using 1 False by simp
    also have "\<dots> = parse4 cs v (length (itoa (v div 10)) + 1) fs"
    proof -
      have "v div 10 \<noteq> 0" "v div 10 * 10 + v mod 10 = v" using False by auto
      moreover have "v mod 10 \<le> 9" by presburger
      ultimately show ?thesis using 1(2) by simp
    qed
    finally show ?thesis unfolding i by simp
  qed
qed

lemma unat_byte_le: "unat (b :: byte) \<le> 255"
  using unat_byte_less [of b] by linarith

lemma parse4_octet:
  assumes "cs \<noteq> []" "length fs < 3"
  shows "parse4 (itoa (unat (b :: byte)) @ CHR ''.'' # cs) 0 0 fs = parse4 cs 0 0 (fs @ [b])"
proof -
  have "unat b \<le> 255" by (rule unat_byte_le)
  with assms show ?thesis by (simp add: parse4_itoa)
qed

lemma parse4_last:
  "length fs = 3 \<Longrightarrow> parse4 (itoa (unat (b :: byte))) 0 0 fs = Some (fs @ [b])"
  using parse4_itoa [OF unat_byte_le, of b "[]" fs] by simp

lemma dotted4: "dotted [a, b, c, d] = itoa (unat a) @ CHR ''.'' # itoa (unat b) @ CHR ''.'' #
    itoa (unat c) @ CHR ''.'' # itoa (unat d)"
  by simp

lemma parse4_dotted: "parse4 (dotted [a, b, c, d]) 0 0 [] = Some [a, b, c, d]"
  unfolding dotted4 by (simp add: parse4_octet parse4_last)

lemma dropWhile_itoa:
  "dropWhile (\<lambda>c. c \<notin> {CHR ''.'', CHR '':'', CHR ''%''}) (itoa n @ CHR ''.'' # cs) = CHR ''.'' # cs"
  using itoa_digits by (subst dropWhile_append2) force+

lemma ParseIP_dotted [addr_simps]: "ParseIP (dotted [a, b, c, d]) = v4InV6Prefix @ [a, b, c, d]"
proof -
  have "dropWhile (\<lambda>c. c \<notin> {CHR ''.'', CHR '':'', CHR ''%''}) (dotted [a, b, c, d]) =
      CHR ''.'' # itoa (unat b) @ CHR ''.'' # itoa (unat c) @ CHR ''.'' # itoa (unat d)"
    unfolding dotted4 by (rule dropWhile_itoa)
  then show ?thesis unfolding ParseIP_def by (simp add: parse4_dotted del: dotted.simps)
qed

lemma To4_v4InV6 [simp]: "length x = 4 \<Longrightarrow> To4 (v4InV6Prefix @ x) = x"
  by (simp add: To4_def v4InV6Prefix_def)

text \<open>Print and parse of an IPv4 address, in either of its two representations.\<close>

lemma ParseIP_IP_String:
  assumes "length ip = 4"
  shows "To4 (ParseIP (IP_String ip)) = ip"
proof -
  from assms obtain a b c d where ip: "ip = [a, b, c, d]"
    by (auto simp: numeral_eq_Suc length_Suc_conv)
  have "IP_String ip = dotted [a, b, c, d]" by (simp add: ip IP_String_def To4_def)
  with ip show ?thesis by (simp add: ParseIP_dotted del: dotted.simps)
qed

text \<open>The bits of an address in network order, and agreement on the first \<open>n\<close> of them.\<close>

definition ip_bit :: "IP \<Rightarrow> nat \<Rightarrow> bool" where
  "ip_bit ip i = bit (ip ! (i div 8)) (7 - i mod 8)"

definition same_prefix :: "nat \<Rightarrow> IP \<Rightarrow> IP \<Rightarrow> bool" where
  "same_prefix n a b = list_all (\<lambda>i. ip_bit a i = ip_bit b i) [0..<n]"

lemma mask_byte_bit:
  assumes "k \<le> 8" "j < 8"
  shows "bit (of_nat (256 - 2 ^ (8 - k)) :: byte) j \<longleftrightarrow> 8 - k \<le> j"
proof -
  have "\<forall>k \<in> set [0..<9]. \<forall>j \<in> set [0..<8].
      bit (of_nat (256 - 2 ^ (8 - k)) :: byte) j \<longleftrightarrow> 8 - k \<le> j"
    by code_simp
  with assms show ?thesis by (auto simp del: of_nat_diff)
qed

lemma masked_byte_eq:
  assumes "k \<le> 8"
  shows "a AND of_nat (256 - 2 ^ (8 - k)) = b AND (of_nat (256 - 2 ^ (8 - k)) :: byte) \<longleftrightarrow>
    (\<forall>j<8. 8 - k \<le> j \<longrightarrow> bit a j = bit b j)"
  unfolding bit_eq_iff using mask_byte_bit [OF assms]
  by (auto simp: bit_and_iff simp del: of_nat_diff)

lemma nth_CIDRMask:
  "i < len \<Longrightarrow> CIDRMask n len ! i = of_nat (256 - 2 ^ (8 - min 8 (n - 8 * i)))"
  by (simp add: CIDRMask_def del: of_nat_diff)

lemma length_CIDRMask [simp]: "length (CIDRMask n len) = len"
  by (simp add: CIDRMask_def)

lemma same_prefix_bytes:
  assumes "n \<le> 8 * len"
  shows "same_prefix n a b \<longleftrightarrow>
    (\<forall>i<len. \<forall>j<8. 8 - min 8 (n - 8 * i) \<le> j \<longrightarrow> bit (a ! i) j = bit (b ! i) j)"
proof
  assume s: "same_prefix n a b"
  show "\<forall>i<len. \<forall>j<8. 8 - min 8 (n - 8 * i) \<le> j \<longrightarrow> bit (a ! i) j = bit (b ! i) j"
  proof (intro allI impI)
    fix i j :: nat
    assume "i < len" and j: "j < 8" "8 - min 8 (n - 8 * i) \<le> j"
    define r where "r = 7 - j"
    with j have r: "r < 8" "7 - r = j" and lt: "8 * i + r < n" by auto
    then have t: "(8 * i + r) div 8 = i" "7 - (8 * i + r) mod 8 = j" by auto
    have "ip_bit a (8 * i + r) = ip_bit b (8 * i + r)"
      using s lt by (auto simp: same_prefix_def list_all_iff)
    with t show "bit (a ! i) j = bit (b ! i) j" by (simp add: ip_bit_def)
  qed
next
  assume r: "\<forall>i<len. \<forall>j<8. 8 - min 8 (n - 8 * i) \<le> j \<longrightarrow> bit (a ! i) j = bit (b ! i) j"
  show "same_prefix n a b"
    unfolding same_prefix_def list_all_iff
  proof
    fix t assume "t \<in> set [0..<n]"
    then have t: "t < n" by simp
    have "t div 8 < len" using t assms by auto
    moreover have "8 - min 8 (n - 8 * (t div 8)) \<le> 7 - t mod 8"
    proof -
      define q k where "q = t div 8" and "k = t mod 8"
      then have "8 * q + k < n" "k < 8" using t by auto
      then show ?thesis unfolding q_def [symmetric] k_def [symmetric] by auto
    qed
    ultimately show "ip_bit a t = ip_bit b t" using r by (simp add: ip_bit_def)
  qed
qed

lemma masked_eq:
  assumes "length a = len" "length b = len" "n \<le> 8 * len"
  shows "mask_ip a (CIDRMask n len) = mask_ip b (CIDRMask n len) \<longleftrightarrow> same_prefix n a b"
proof -
  have "mask_ip a (CIDRMask n len) = mask_ip b (CIDRMask n len) \<longleftrightarrow>
      (\<forall>i<len. a ! i AND CIDRMask n len ! i = b ! i AND CIDRMask n len ! i)"
    using assms(1,2) by (simp add: mask_ip_def list_eq_iff_nth_eq)
  also have "\<dots> \<longleftrightarrow> same_prefix n a b"
    unfolding same_prefix_bytes [OF assms(3)]
    by (auto simp: nth_CIDRMask masked_byte_eq simp del: of_nat_diff)
  finally show ?thesis .
qed

lemma length_mask_ip [simp]: "length (mask_ip ip m) = min (length ip) (length m)"
  by (simp add: mask_ip_def)

lemma mask_ip_idem: "mask_ip (mask_ip ip m) m = mask_ip ip m"
  unfolding mask_ip_def by (rule nth_equalityI) (auto simp: and.assoc)

lemma NetContains_v4:
  assumes "length a = 4" "n \<le> 32"
  shows "NetContains \<lparr>netIP = mask_ip a (CIDRMask n 4), netMask = CIDRMask n 4\<rparr> ip \<longleftrightarrow>
    To4 ip \<noteq> [] \<and> same_prefix n a (To4 ip)"
proof -
  have "networkNumberAndMask \<lparr>netIP = mask_ip a (CIDRMask n 4), netMask = CIDRMask n 4\<rparr> =
      (mask_ip a (CIDRMask n 4), CIDRMask n 4)"
  proof -
    have "networkNumberAndMask \<lparr>netIP = x, netMask = CIDRMask n 4\<rparr> = (x, CIDRMask n 4)"
      if "length x = 4" for x
      using that by (auto simp: networkNumberAndMask_def To4_def)
    then show ?thesis using assms by simp
  qed
  moreover have "To4 ip \<noteq> [] \<longrightarrow> length (To4 ip) = 4" "To4 ip = [] \<longrightarrow> length ip \<noteq> 4"
    by (auto simp: To4_def)
  ultimately show ?thesis
    using assms masked_eq [of a 4 "To4 ip" n]
    by (cases "To4 ip = []") (auto simp: NetContains_def mask_ip_idem)
qed

lemma dtoi_itoa: "n < 0xFFFFFF \<Longrightarrow> dtoi (itoa n) = Some n"
proof -
  have "foldl (\<lambda>a c. a * 10 + (code c - 48)) 0 (itoa n) = n"
  proof (induction n rule: itoa.induct)
    case (1 n)
    show ?case
    proof (cases "n < 10")
      case False
      with 1 have "foldl (\<lambda>a c. a * 10 + (code c - 48)) 0 (itoa (n div 10)) = n div 10" by simp
      with False show ?thesis by (subst itoa.simps) simp
    qed (subst itoa.simps, simp)
  qed
  moreover have "list_all is_digit (itoa n)" using itoa_digits by (auto simp: list_all_iff)
  moreover assume "n < 0xFFFFFF"
  ultimately show ?thesis by (simp add: dtoi_def)
qed

lemma dotted_no: "CHR '':'' \<notin> set (dotted [a, b, c, d]) \<and> CHR ''/'' \<notin> set (dotted [a, b, c, d])"
proof -
  have "is_digit x \<or> x = CHR ''.''" if "x \<in> set (dotted [a, b, c, d])" for x
    using that itoa_digits by auto
  then show ?thesis by force
qed

lemma ParseCIDR_v4:
  assumes "n \<le> 32"
  shows "ParseCIDR (dotted [a, b, c, d] @ ''/'' @ itoa n) =
    Inr \<lparr>netIP = mask_ip [a, b, c, d] (CIDRMask n 4), netMask = CIDRMask n 4\<rparr>"
proof -
  have "SplitN2 CHR ''/'' (dotted [a, b, c, d] @ CHR ''/'' # itoa n) = [dotted [a, b, c, d], itoa n]"
    using dotted_no by (intro SplitN2_sep) blast
  moreover have "dtoi (itoa n) = Some n" using assms by (intro dtoi_itoa) simp
  ultimately show ?thesis
    using assms dotted_no
    by (simp add: ParseCIDR_def ParseIP_dotted v4InV6Prefix_def Let_def del: dotted.simps)
qed

end
