(* ===== verification/Protocol.thy ===== *)
theory Protocol
  imports Go_Net
begin

text \<open>
  The messages of \<^verbatim>\<open>pkg/protocol/types.go\<close>: the description of a tunnel that the client puts
  into its token and the server acts on. A pointer field is an \<open>option\<close>. The JSON and JWT
  encodings are done by libraries; here are the values they carry and the methods the code
  defines on them.
\<close>

definition JwtHeaderPrefix :: string where
  "JwtHeaderPrefix = ''authorization.bearer.''"

record Duration =
  Secs :: u64
  Nanos :: u32

record Credentials =
  Username :: string
  Password :: string

record TcpProtocol =
  tcpProxyProtocol :: bool

record UdpProtocol =
  udpTimeout :: "Duration option"

record StdioProtocol =
  stdioProxyProtocol :: bool

record Socks5Protocol =
  socksTimeout :: "Duration option"
  socksCredentials :: "Credentials option"

record HttpProxyProtocol =
  httpTimeout :: "Duration option"
  httpCredentials :: "Credentials option"
  httpProxyProtocol :: bool

record ReverseUnixProtocol =
  rUnixPath :: string

record UnixProtocol =
  unixPath :: string
  unixProxyProtocol :: bool

type_synonym TProxyUdpProtocol = UdpProtocol
type_synonym ReverseUdpProtocol = UdpProtocol
type_synonym ReverseSocks5Protocol = Socks5Protocol
type_synonym ReverseHttpProxyProtocol = Socks5Protocol

record LocalProtocol =
  Tcp :: "TcpProtocol option"
  Udp :: "UdpProtocol option"
  Stdio :: "StdioProtocol option"
  Socks5 :: "Socks5Protocol option"
  TProxyTcp :: "unit option"
  TProxyUdp :: "TProxyUdpProtocol option"
  HttpProxy :: "HttpProxyProtocol option"
  ReverseTcp :: "unit option"
  ReverseUdp :: "ReverseUdpProtocol option"
  ReverseSocks5 :: "ReverseSocks5Protocol option"
  ReverseHttpProxy :: "ReverseHttpProxyProtocol option"
  ReverseUnix :: "ReverseUnixProtocol option"
  Unix :: "UnixProtocol option"

text \<open>The zero value, from which composite literals set single fields.\<close>

definition noProtocol :: LocalProtocol where
  "noProtocol = \<lparr>Tcp = None, Udp = None, Stdio = None, Socks5 = None, TProxyTcp = None,
     TProxyUdp = None, HttpProxy = None, ReverseTcp = None, ReverseUdp = None,
     ReverseSocks5 = None, ReverseHttpProxy = None, ReverseUnix = None, Unix = None\<rparr>"

record JwtTunnelConfig =
  ID :: string
  Protocol :: LocalProtocol
  Remote :: string
  Port :: port

record LocalToRemote =
  ltrProtocol :: LocalProtocol
  ltrLocal :: string
  ltrRemote :: string
  ltrPort :: port

text \<open>\<^verbatim>\<open>UnmarshalJSON\<close> of credentials after the array was decoded: anything but two elements is
  silently ignored and leaves the value as it was.\<close>

definition Credentials_of_array :: "Credentials \<Rightarrow> string list \<Rightarrow> Credentials" where
  "Credentials_of_array c arr = (case arr of [u, p] \<Rightarrow> c\<lparr>Username := u, Password := p\<rparr> | _ \<Rightarrow> c)"

definition Credentials_to_array :: "Credentials \<Rightarrow> string list" where
  "Credentials_to_array c = [Username c, Password c]"

lemma Credentials_array_roundtrip: "Credentials_of_array c0 (Credentials_to_array c) = c"
  by (simp add: Credentials_of_array_def Credentials_to_array_def)

text \<open>\<^verbatim>\<open>time.Duration\<close> is a signed 64-bit count of nanoseconds; the conversion wraps around.\<close>

type_synonym time_duration = "64 word"

definition Second :: time_duration where
  "Second = 1000000000"

definition ToTimeDuration :: "Duration \<Rightarrow> time_duration" where
  "ToTimeDuration d = Secs d * Second + ucast (Nanos d)"

text \<open>The addresses the server derives from a token's host and port.\<close>

definition hostport :: "string \<Rightarrow> port \<Rightarrow> string" where
  "hostport h p = JoinHostPort h (itoa (unat p))"

lemma hostport_inject: "hostport h p = hostport h' p' \<longleftrightarrow> h = h' \<and> p = p'"
  unfolding hostport_def
  by (auto dest!: JoinHostPort_inject simp: word_unat_eq_iff)

end
