(* ===== verification/Restrictions.thy ===== *)
theory Restrictions
  imports Protocol
begin

text \<open>
  The access rules of \<^verbatim>\<open>pkg/server/restrictions.go\<close> and the rules \<^verbatim>\<open>NewServer\<close> builds from the
  command line. A compiled regular expression is its match predicate; the compiler of
  \<^verbatim>\<open>regexp\<close> and the YAML decoder are parameters, the former with the hypothesis that an
  anchored quoted literal matches exactly that literal. What is done with the decoded values
  (port ranges, tags, the order of the checks) is modelled.
\<close>

subsection \<open>Rules\<close>

type_synonym regexp = "string \<Rightarrow> bool"

record MatchConfig =
  Any :: bool
  PathPrefix :: "regexp option"
  Authorization :: "regexp option"
  ClientCommonName :: "regexp option"

record PortRange =
  Min :: port
  Max :: port

record AllowTunnelConfig =
  atProtocol :: "string list"
  atPort :: "PortRange list"
  atHost :: "regexp option"
  atCIDR :: "IPNet list"

record AllowReverseTunnelConfig =
  artProtocol :: "string list"
  artPort :: "PortRange list"
  artPortMapping :: "(port \<times> port) list"
  artCIDR :: "IPNet list"
  artUnixPath :: "regexp option"

record AllowConfig =
  Tunnel :: "AllowTunnelConfig option"
  ReverseTunnel :: "AllowReverseTunnelConfig option"

record RestrictionConfig =
  Name :: string
  Match :: "MatchConfig list"
  Allow :: "AllowConfig list"

type_synonym RestrictionsRules = "RestrictionConfig list"

subsection \<open>Decoding\<close>

text \<open>The scalar of a port entry: a range or one port; parse errors are ignored, so the value is what
  \<open>ParseUint\<close> returned beside its error.\<close>

definition parse_port :: "string \<Rightarrow> port" where
  "parse_port s = of_nat (fst (ParseUint 16 s))"

definition PortRange_of_string :: "string \<Rightarrow> PortRange" where
  "PortRange_of_string s =
     (case Cut ''..'' s of
        Some (a, b) \<Rightarrow>
          \<lparr>Min = parse_port a,
           Max = parse_port (case Cut ''..'' b of Some (b', _) \<Rightarrow> b' | None \<Rightarrow> b)\<rparr>
      | None \<Rightarrow> \<lparr>Min = parse_port s, Max = parse_port s\<rparr>)"

text \<open>A match entry: the node decoded as a scalar if it is one, and as a mapping.\<close>

definition opt_compile :: "(string \<Rightarrow> regexp option) \<Rightarrow> string \<Rightarrow> go_error + regexp option" where
  "opt_compile Compile s =
     (if s = [] then Inr None
      else (case Compile s of None \<Rightarrow> Inl (Errorf ''error parsing regexp'') | Some re \<Rightarrow> Inr (Some re)))"

definition MatchConfig_of_yaml ::
  "(string \<Rightarrow> regexp option) \<Rightarrow> string option \<Rightarrow> go_error + string \<times> string \<times> string \<Rightarrow>
   go_error + MatchConfig" where
  "MatchConfig_of_yaml Compile scalar mapping =
     (if scalar = Some ''Any'' then
        Inr \<lparr>Any = True, PathPrefix = None, Authorization = None, ClientCommonName = None\<rparr>
      else case mapping of
        Inl e \<Rightarrow> Inl e
      | Inr (pp, au, cn) \<Rightarrow>
          (case opt_compile Compile pp of Inl e \<Rightarrow> Inl e | Inr r1 \<Rightarrow>
          (case opt_compile Compile au of Inl e \<Rightarrow> Inl e | Inr r2 \<Rightarrow>
          (case opt_compile Compile cn of Inl e \<Rightarrow> Inl e | Inr r3 \<Rightarrow>
             Inr \<lparr>Any = False, PathPrefix = r1, Authorization = r2, ClientCommonName = r3\<rparr>))))"

text \<open>An allow entry: its tag selects which of the two decodings is used.\<close>

definition AllowConfig_of_yaml ::
  "string \<Rightarrow> go_error + AllowTunnelConfig \<Rightarrow> go_error + AllowReverseTunnelConfig \<Rightarrow>
   go_error + AllowConfig" where
  "AllowConfig_of_yaml tag dt dr =
     (if tag = ''!Tunnel'' then
        (case dt of Inl e \<Rightarrow> Inl e | Inr t \<Rightarrow> Inr \<lparr>Tunnel = Some t, ReverseTunnel = None\<rparr>)
      else if tag = ''!ReverseTunnel'' then
        (case dr of Inl e \<Rightarrow> Inl e | Inr t \<Rightarrow> Inr \<lparr>Tunnel = None, ReverseTunnel = Some t\<rparr>)
      else Inl (Errorf (''unknown allow tag: '' @ tag)))"

subsection \<open>Decisions\<close>

definition getProtoName :: "LocalProtocol \<Rightarrow> string" where
  "getProtoName p =
     (if Tcp p \<noteq> None then ''Tcp''
      else if Udp p \<noteq> None then ''Udp''
      else if Socks5 p \<noteq> None then ''Socks5''
      else if HttpProxy p \<noteq> None then ''Http''
      else if Unix p \<noteq> None then ''Unix''
      else if ReverseTcp p \<noteq> None then ''ReverseTcp''
      else if ReverseUdp p \<noteq> None then ''ReverseUdp''
      else if ReverseSocks5 p \<noteq> None then ''ReverseSocks5''
      else if ReverseHttpProxy p \<noteq> None then ''ReverseHttp''
      else if ReverseUnix p \<noteq> None then ''ReverseUnix''
      else ''Unknown'')"

fun Matches_any :: "MatchConfig list \<Rightarrow> string \<Rightarrow> string \<Rightarrow> string \<Rightarrow> bool" where
  "Matches_any [] path auth cn = False"
| "Matches_any (m # ms) path auth cn =
     (if Any m then True
      else if (case PathPrefix m of Some re \<Rightarrow> re path | None \<Rightarrow> False) then True
      else if (case Authorization m of Some re \<Rightarrow> re auth | None \<Rightarrow> False) then True
      else if (case ClientCommonName m of Some re \<Rightarrow> re cn | None \<Rightarrow> False) then True
      else Matches_any ms path auth cn)"

definition Matches :: "RestrictionConfig \<Rightarrow> string \<Rightarrow> string \<Rightarrow> string \<Rightarrow> bool" where
  "Matches rc path auth cn = Matches_any (Match rc) path auth cn"

definition in_ranges :: "PortRange list \<Rightarrow> port \<Rightarrow> bool" where
  "in_ranges prs p = list_ex (\<lambda>pr. Min pr \<le> p \<and> p \<le> Max pr) prs"

definition proto_listed :: "string list \<Rightarrow> LocalProtocol \<Rightarrow> bool" where
  "proto_listed ps p = list_ex (\<lambda>x. EqualFold x (getProtoName p)) ps"

definition in_networks :: "IPNet list \<Rightarrow> IP \<Rightarrow> bool" where
  "in_networks ns ip = list_ex (\<lambda>c. NetContains c ip) ns"

definition TunnelAllows :: "AllowTunnelConfig \<Rightarrow> JwtTunnelConfig \<Rightarrow> bool" where
  "TunnelAllows a claims =
     (if atProtocol a \<noteq> [] \<and> \<not> proto_listed (atProtocol a) (Protocol claims) then False
      else if atPort a \<noteq> [] \<and> \<not> in_ranges (atPort a) (Port claims) then False
      else if (case atHost a of Some re \<Rightarrow> \<not> re (Remote claims) | None \<Rightarrow> False) then False
      else if atCIDR a \<noteq> [] then
        (let ip = ParseIP (Remote claims) in
         if ip \<noteq> [] then in_networks (atCIDR a) ip else atHost a \<noteq> None)
      else True)"

definition ReverseTunnelAllows :: "AllowReverseTunnelConfig \<Rightarrow> JwtTunnelConfig \<Rightarrow> bool" where
  "ReverseTunnelAllows a claims =
     (if artProtocol a \<noteq> [] \<and> \<not> proto_listed (artProtocol a) (Protocol claims) then False
      else case ReverseUnix (Protocol claims) of
        Some u \<Rightarrow> (case artUnixPath a of Some re \<Rightarrow> re (rUnixPath u) | None \<Rightarrow> True)
      | None \<Rightarrow>
          if artPort a \<noteq> [] \<and> \<not> in_ranges (artPort a) (Port claims) then False
          else if artCIDR a \<noteq> [] then
            (let ip = ParseIP (Remote claims) in ip = [] \<or> in_networks (artCIDR a) ip)
          else True)"

definition isReverse :: "LocalProtocol \<Rightarrow> bool" where
  "isReverse p \<longleftrightarrow> ReverseTcp p \<noteq> None \<or> ReverseUdp p \<noteq> None \<or> ReverseSocks5 p \<noteq> None \<or>
     ReverseHttpProxy p \<noteq> None \<or> ReverseUnix p \<noteq> None"

fun Allows_any :: "AllowConfig list \<Rightarrow> JwtTunnelConfig \<Rightarrow> bool" where
  "Allows_any [] claims = False"
| "Allows_any (a # as) claims =
     (if isReverse (Protocol claims) \<and> ReverseTunnel a \<noteq> None then
        if ReverseTunnelAllows (the (ReverseTunnel a)) claims then True else Allows_any as claims
      else if \<not> isReverse (Protocol claims) \<and> Tunnel a \<noteq> None then
        if TunnelAllows (the (Tunnel a)) claims then True else Allows_any as claims
      else Allows_any as claims)"

definition Allows :: "RestrictionConfig \<Rightarrow> JwtTunnelConfig \<Rightarrow> bool" where
  "Allows rc claims = Allows_any (Allow rc) claims"

fun Validate_rules :: "RestrictionsRules \<Rightarrow> JwtTunnelConfig \<Rightarrow> string \<Rightarrow> string \<Rightarrow> string \<Rightarrow> bool" where
  "Validate_rules [] claims path auth cn = False"
| "Validate_rules (r # rs) claims path auth cn =
     (if Matches r path auth cn then
        if Allows r claims then True else Validate_rules rs claims path auth cn
      else Validate_rules rs claims path auth cn)"

definition Validate ::
  "RestrictionsRules option \<Rightarrow> JwtTunnelConfig \<Rightarrow> string \<Rightarrow> string \<Rightarrow> string \<Rightarrow> bool" where
  "Validate rules claims path auth cn =
     (case rules of
        None \<Rightarrow> True
      | Some rs \<Rightarrow> if rs = [] then True else Validate_rules rs claims path auth cn)"

subsection \<open>The rules of the command line\<close>

definition metachars :: "char set" where
  "metachars = set [CHR ''.'', CHR ''+'', CHR ''*'', CHR ''?'', CHR ''('', CHR '')'', CHR ''|'',
     CHR ''['', CHR '']'', CHR ''{'', CHR ''}'', CHR ''^'', CHR ''$'', chr 92]"

definition QuoteMeta :: "string \<Rightarrow> string" where
  "QuoteMeta s = concat (map (\<lambda>c. if c \<in> metachars then [chr 92, c] else [c]) s)"

definition exact_pattern :: "string \<Rightarrow> string" where
  "exact_pattern h = ''^'' @ QuoteMeta h @ ''$''"

definition path_match :: "(string \<Rightarrow> regexp option) \<Rightarrow> string \<Rightarrow> MatchConfig list" where
  "path_match Compile p =
     (case Compile (''^/'' @ TrimPrefix p ''/'') of
        Some re \<Rightarrow> [\<lparr>Any = False, PathPrefix = Some re, Authorization = None, ClientCommonName = None\<rparr>]
      | None \<Rightarrow> [])"

text \<open>An entry \<open>host:port\<close> of \<^verbatim>\<open>restrict_to\<close>. The error of the compiler is ignored; matching with the
  missing expression would panic, which the model shows as no match.\<close>

definition restrict_entry :: "(string \<Rightarrow> regexp option) \<Rightarrow> string \<Rightarrow> AllowConfig list" where
  "restrict_entry Compile r =
     (case SplitHostPort r of
        Inl e \<Rightarrow> []
      | Inr (host, portStr) \<Rightarrow>
          [\<lparr>Tunnel = Some \<lparr>atProtocol = [],
              atPort = [\<lparr>Min = parse_port portStr, Max = parse_port portStr\<rparr>],
              atHost = Some (case Compile (exact_pattern host) of Some re \<Rightarrow> re | None \<Rightarrow> (\<lambda>_. False)),
              atCIDR = []\<rparr>,
            ReverseTunnel = None\<rparr>])"

definition allow_all :: AllowConfig where
  "allow_all =
     \<lparr>Tunnel = Some \<lparr>atProtocol = [], atPort = [], atHost = None, atCIDR = []\<rparr>,
      ReverseTunnel = Some \<lparr>artProtocol = [], artPort = [], artPortMapping = [], artCIDR = [],
        artUnixPath = None\<rparr>\<rparr>"

text \<open>\<open>loaded\<close> is the result of \<^verbatim>\<open>LoadRestrictions\<close> when a restriction file is configured.\<close>

definition NewServer_rules ::
  "(string \<Rightarrow> regexp option) \<Rightarrow> (go_error + RestrictionsRules) option \<Rightarrow> string list \<Rightarrow> string list \<Rightarrow>
   RestrictionsRules option" where
  "NewServer_rules Compile loaded restrictTo pathPrefixes =
     (case loaded of
        Some (Inr rs) \<Rightarrow> Some rs
      | _ \<Rightarrow>
          if restrictTo \<noteq> [] \<or> pathPrefixes \<noteq> [] then
            Some [\<lparr>Name = ''Default Restrictions'',
               Match = (if pathPrefixes \<noteq> [] then concat (map (path_match Compile) pathPrefixes)
                 else [\<lparr>Any = True, PathPrefix = None, Authorization = None, ClientCommonName = None\<rparr>]),
               Allow = (if restrictTo \<noteq> [] then concat (map (restrict_entry Compile) restrictTo)
                 else [allow_all])\<rparr>]
          else None)"

subsection \<open>The loops decide the intended relations\<close>

definition match_ok :: "MatchConfig \<Rightarrow> string \<Rightarrow> string \<Rightarrow> string \<Rightarrow> bool" where
  "match_ok m path auth cn \<longleftrightarrow> Any m \<or> (\<exists>re. PathPrefix m = Some re \<and> re path) \<or>
     (\<exists>re. Authorization m = Some re \<and> re auth) \<or> (\<exists>re. ClientCommonName m = Some re \<and> re cn)"

lemma Matches_iff: "Matches rc path auth cn \<longleftrightarrow> (\<exists>m \<in> set (Match rc). match_ok m path auth cn)"
proof -
  have "Matches_any ms path auth cn \<longleftrightarrow> (\<exists>m \<in> set ms. match_ok m path auth cn)" for ms
    by (induction ms) (auto simp: match_ok_def split: option.splits)
  then show ?thesis by (simp add: Matches_def)
qed

definition allow_ok :: "AllowConfig \<Rightarrow> JwtTunnelConfig \<Rightarrow> bool" where
  "allow_ok a claims \<longleftrightarrow>
     (if isReverse (Protocol claims)
      then \<exists>t. ReverseTunnel a = Some t \<and> ReverseTunnelAllows t claims
      else \<exists>t. Tunnel a = Some t \<and> TunnelAllows t claims)"

lemma Allows_iff: "Allows rc claims \<longleftrightarrow> (\<exists>a \<in> set (Allow rc). allow_ok a claims)"
proof -
  have "Allows_any as claims \<longleftrightarrow> (\<exists>a \<in> set as. allow_ok a claims)" for as
    by (induction as) (auto simp: allow_ok_def)
  then show ?thesis by (simp add: Allows_def)
qed

lemma Validate_rules_iff:
  "Validate_rules rs claims path auth cn \<longleftrightarrow>
     (\<exists>r \<in> set rs. Matches r path auth cn \<and> Allows r claims)"
  by (induction rs) auto

text \<open>The conditions of a forward rule, each empty list or missing expression meaning any value.\<close>

definition tunnel_ok :: "AllowTunnelConfig \<Rightarrow> JwtTunnelConfig \<Rightarrow> bool" where
  "tunnel_ok a claims \<longleftrightarrow>
     (atProtocol a = [] \<or> (\<exists>x \<in> set (atProtocol a). EqualFold x (getProtoName (Protocol claims)))) \<and>
     (atPort a = [] \<or> (\<exists>r \<in> set (atPort a). Port claims \<in> {Min r .. Max r})) \<and>
     (\<forall>re. atHost a = Some re \<longrightarrow> re (Remote claims)) \<and>
     (atCIDR a = [] \<or>
        (if ParseIP (Remote claims) = [] then atHost a \<noteq> None
         else \<exists>c \<in> set (atCIDR a). NetContains c (ParseIP (Remote claims))))"

lemma TunnelAllows_iff: "TunnelAllows a claims \<longleftrightarrow> tunnel_ok a claims"
  unfolding TunnelAllows_def tunnel_ok_def Let_def proto_listed_def in_ranges_def in_networks_def
  by (cases "atHost a") (auto simp: list_ex_iff)

definition reverse_ok :: "AllowReverseTunnelConfig \<Rightarrow> JwtTunnelConfig \<Rightarrow> bool" where
  "reverse_ok a claims \<longleftrightarrow>
     (artProtocol a = [] \<or> (\<exists>x \<in> set (artProtocol a). EqualFold x (getProtoName (Protocol claims)))) \<and>
     (case ReverseUnix (Protocol claims) of
        Some u \<Rightarrow> \<forall>re. artUnixPath a = Some re \<longrightarrow> re (rUnixPath u)
      | None \<Rightarrow>
          (artPort a = [] \<or> (\<exists>r \<in> set (artPort a). Port claims \<in> {Min r .. Max r})) \<and>
          (artCIDR a = [] \<or> ParseIP (Remote claims) = [] \<or>
             (\<exists>c \<in> set (artCIDR a). NetContains c (ParseIP (Remote claims)))))"

lemma ReverseTunnelAllows_iff: "ReverseTunnelAllows a claims \<longleftrightarrow> reverse_ok a claims"
  unfolding ReverseTunnelAllows_def reverse_ok_def Let_def proto_listed_def in_ranges_def in_networks_def
  by (auto simp: list_ex_iff split: option.splits)

text \<open>The decision as one relation: a matching rule has an entry of the claims' direction that
  admits them.\<close>

definition permitted :: "RestrictionsRules \<Rightarrow> JwtTunnelConfig \<Rightarrow> string \<Rightarrow> string \<Rightarrow> string \<Rightarrow> bool" where
  "permitted rs claims path auth cn \<longleftrightarrow>
     (\<exists>r \<in> set rs. (\<exists>m \<in> set (Match r). match_ok m path auth cn) \<and>
        (\<exists>a \<in> set (Allow r).
           if isReverse (Protocol claims) then \<exists>t. ReverseTunnel a = Some t \<and> reverse_ok t claims
           else \<exists>t. Tunnel a = Some t \<and> tunnel_ok t claims))"

text \<open>C8. \<open>Validate\<close> with its early returns decides the relation \<open>permitted\<close>: with no rules everything
  passes; otherwise a request passes exactly if some rule matches it and has an entry for its
  direction all of whose conditions hold.\<close>

theorem validate_decides:
  "Validate rules claims path auth cn \<longleftrightarrow>
     (case rules of None \<Rightarrow> True | Some rs \<Rightarrow> rs = [] \<or> permitted rs claims path auth cn)"
  by (auto simp: Validate_def Validate_rules_iff permitted_def Matches_iff Allows_iff allow_ok_def
      TunnelAllows_iff ReverseTunnelAllows_iff split: option.splits)

subsection \<open>Command-line restrictions\<close>

text \<open>What the code relies on of the \<^verbatim>\<open>regexp\<close> compiler: an anchored quoted ASCII literal matches
  exactly that literal, and a pattern that starts with a caret and has no metacharacters after it
  matches the strings with that prefix.\<close>

abbreviation ascii :: "string \<Rightarrow> bool" where
  "ascii s \<equiv> list_all (\<lambda>c. code c < 128) s"

abbreviation literal :: "string \<Rightarrow> bool" where
  "literal s \<equiv> list_all (\<lambda>c. code c < 128 \<and> c \<notin> metachars) s"

definition literal_regexps :: "(string \<Rightarrow> regexp option) \<Rightarrow> bool" where
  "literal_regexps Compile \<longleftrightarrow>
     (\<forall>h. ascii h \<longrightarrow> Compile (exact_pattern h) = Some (\<lambda>s. s = h)) \<and>
     (\<forall>p. literal p \<longrightarrow> Compile (CHR ''^'' # p) = Some (\<lambda>s. HasPrefix s p))"

lemma literal_exact:
  "literal_regexps Compile \<Longrightarrow> ascii h \<Longrightarrow> Compile (exact_pattern h) = Some (\<lambda>s. s = h)"
  by (simp add: literal_regexps_def)

lemma literal_prefix:
  "literal_regexps Compile \<Longrightarrow> literal p \<Longrightarrow> Compile (CHR ''^'' # p) = Some (\<lambda>s. HasPrefix s p)"
  by (simp add: literal_regexps_def)

lemma path_match_ok:
  assumes "literal_regexps Compile" "literal p"
  shows "(\<exists>m \<in> set (path_match Compile p). match_ok m path auth cn) \<longleftrightarrow>
    HasPrefix path (''/'' @ TrimPrefix p ''/'')"
proof -
  have "CHR ''/'' \<notin> metachars" by code_simp
  moreover have "set (TrimPrefix p ''/'') \<subseteq> set p"
    by (auto simp: TrimPrefix_def dest: in_set_dropD)
  ultimately have "literal (CHR ''/'' # TrimPrefix p ''/'')"
    using assms(2) by (auto simp: list_all_iff)
  with assms(1) have "Compile (CHR ''^'' # CHR ''/'' # TrimPrefix p ''/'') =
      Some (\<lambda>s. HasPrefix s (CHR ''/'' # TrimPrefix p ''/''))"
    by (rule literal_prefix)
  then show ?thesis by (simp add: path_match_def match_ok_def)
qed

lemma in_ranges_single: "in_ranges [\<lparr>Min = q, Max = q\<rparr>] p \<longleftrightarrow> p = q"
  unfolding in_ranges_def using order_antisym [of p q] by auto

lemma restrict_entry_ok:
  assumes "literal_regexps Compile" "ascii r"
  shows "(\<exists>a \<in> set (restrict_entry Compile r). allow_ok a claims) \<longleftrightarrow>
    \<not> isReverse (Protocol claims) \<and>
    (\<exists>p. SplitHostPort r = Inr (Remote claims, p) \<and> Port claims = parse_port p)"
proof (cases "SplitHostPort r")
  case (Inr hp)
  obtain h p where hp: "hp = (h, p)" by (cases hp)
  with Inr assms(2) have "ascii h" using SplitHostPort_set [of r h p] by (auto simp: list_all_iff)
  with assms(1) have "Compile (exact_pattern h) = Some (\<lambda>s. s = h)"
    by (rule literal_exact)
  with Inr hp have "restrict_entry Compile r = [\<lparr>Tunnel = Some \<lparr>atProtocol = [],
      atPort = [\<lparr>Min = parse_port p, Max = parse_port p\<rparr>], atHost = Some (\<lambda>s. s = h), atCIDR = []\<rparr>,
      ReverseTunnel = None\<rparr>]"
    by (simp add: restrict_entry_def)
  then show ?thesis
    using Inr hp by (auto simp: allow_ok_def TunnelAllows_def in_ranges_single)
qed (simp add: restrict_entry_def)

lemma allow_all_ok [simp]: "allow_ok allow_all claims"
  by (auto simp: allow_ok_def allow_all_def TunnelAllows_def ReverseTunnelAllows_def split: option.splits)

lemma cli_rules_decide:
  assumes "literal_regexps Compile"
    and "\<forall>r \<in> set restrictTo. ascii r" "\<forall>p \<in> set paths. literal p"
  shows "Validate (NewServer_rules Compile None restrictTo paths) claims path auth cn \<longleftrightarrow>
    (paths = [] \<or> (\<exists>p \<in> set paths. HasPrefix path (''/'' @ TrimPrefix p ''/''))) \<and>
    (restrictTo = [] \<or>
       \<not> isReverse (Protocol claims) \<and>
       (\<exists>r \<in> set restrictTo. \<exists>p. SplitHostPort r = Inr (Remote claims, p) \<and> Port claims = parse_port p))"
proof -
  have m: "(\<exists>m \<in> set (concat (map (path_match Compile) paths)). match_ok m path auth cn) \<longleftrightarrow>
      (\<exists>p \<in> set paths. HasPrefix path (''/'' @ TrimPrefix p ''/''))"
    using path_match_ok [OF assms(1)] assms(3) by auto
  have a: "(\<exists>a \<in> set (concat (map (restrict_entry Compile) restrictTo)). allow_ok a claims) \<longleftrightarrow>
      \<not> isReverse (Protocol claims) \<and>
      (\<exists>r \<in> set restrictTo. \<exists>p. SplitHostPort r = Inr (Remote claims, p) \<and> Port claims = parse_port p)"
    using restrict_entry_ok [OF assms(1)] assms(2) by auto
  have any: "match_ok \<lparr>Any = True, PathPrefix = None, Authorization = None, ClientCommonName = None\<rparr> path auth cn"
    by (simp add: match_ok_def)
  show ?thesis
  proof (cases "restrictTo = [] \<and> paths = []")
    case False
    with m a any show ?thesis
      by (auto simp: NewServer_rules_def Validate_def Validate_rules_iff Matches_iff Allows_iff)
  qed (simp add: NewServer_rules_def Validate_def)
qed

text \<open>C16. The restrictions of the command line are exact: a tunnel is accepted if and only if its
  request path has one of the configured prefixes (when there are any), and (when there are
  \<^verbatim>\<open>restrict_to\<close> entries) it is a forward tunnel whose host and port are those of an entry.\<close>

theorem cli_restrictions_exact:
  assumes "literal_regexps Compile"
    and "\<forall>r \<in> set restrictTo. ascii r" "\<forall>p \<in> set paths. literal p"
  shows "Validate (NewServer_rules Compile None restrictTo paths) claims path auth cn \<longleftrightarrow>
    (paths = [] \<or> (\<exists>p \<in> set paths. HasPrefix path (''/'' @ TrimPrefix p ''/''))) \<and>
    (restrictTo = [] \<or>
       \<not> isReverse (Protocol claims) \<and>
       (\<exists>r \<in> set restrictTo. \<exists>p. SplitHostPort r = Inr (Remote claims, p) \<and> Port claims = parse_port p))"
  using assms by (rule cli_rules_decide)

text \<open>A compiler for the two kinds of patterns above.\<close>

fun unquote :: "string \<Rightarrow> string" where
  "unquote (a # b # cs) = (if a = chr 92 then b # unquote cs else a # unquote (b # cs))"
| "unquote cs = cs"

definition demo_compile :: "string \<Rightarrow> regexp option" where
  "demo_compile pat =
     (if pat \<noteq> [] \<and> last pat = CHR ''$''
      then Some (\<lambda>s. s = unquote (butlast (tl pat))) else Some (\<lambda>s. HasPrefix s (tl pat)))"

lemma unquote_plain: "c \<noteq> chr 92 \<Longrightarrow> unquote (c # cs) = c # unquote cs"
  by (cases cs) auto

lemma unquote_QuoteMeta: "unquote (QuoteMeta h) = h"
proof (induction h)
  case (Cons c h)
  have "chr 92 \<in> metachars" by code_simp
  then have "c \<notin> metachars \<Longrightarrow> c \<noteq> chr 92" by blast
  with Cons show ?case
    by (cases "c \<in> metachars") (simp_all add: QuoteMeta_def unquote_plain)
qed (simp add: QuoteMeta_def)

lemma demo_compile_literal: "literal_regexps demo_compile"
proof -
  have "CHR ''$'' \<in> metachars" by code_simp
  then have "p = [] \<or> last p \<noteq> CHR ''$''" if "literal p" for p
    using that by (cases p rule: rev_cases) auto
  then have "demo_compile (CHR ''^'' # p) = Some (\<lambda>s. HasPrefix s p)" if "literal p" for p
    using that by (auto simp: demo_compile_def)
  moreover have "demo_compile (exact_pattern h) = Some (\<lambda>s. s = h)" for h
    by (simp add: demo_compile_def exact_pattern_def butlast_append unquote_QuoteMeta)
  ultimately show ?thesis unfolding literal_regexps_def by blast
qed

definition tcp_claims :: "string \<Rightarrow> port \<Rightarrow> JwtTunnelConfig" where
  "tcp_claims h p = \<lparr>ID = [], Protocol = noProtocol\<lparr>Tcp := Some \<lparr>tcpProxyProtocol = False\<rparr>\<rparr>,
     Remote = h, Port = p\<rparr>"

theorem cli_restrictions_exact_witness:
  "literal_regexps demo_compile \<and>
   (Validate (NewServer_rules demo_compile None [''10.0.0.1:22''] [''v1'']) (tcp_claims ''10.0.0.1'' 22)
      ''/v1/events'' [] [] \<longleftrightarrow>
    ([''v1''] = [] \<or> (\<exists>p \<in> set [''v1'']. HasPrefix ''/v1/events'' (''/'' @ TrimPrefix p ''/''))) \<and>
    ([''10.0.0.1:22''] = [] \<or>
       \<not> isReverse (Protocol (tcp_claims ''10.0.0.1'' 22)) \<and>
       (\<exists>r \<in> set [''10.0.0.1:22'']. \<exists>p. SplitHostPort r = Inr (Remote (tcp_claims ''10.0.0.1'' 22), p) \<and>
          Port (tcp_claims ''10.0.0.1'' 22) = parse_port p)))"
proof (intro conjI demo_compile_literal cli_restrictions_exact)
  show "\<forall>r \<in> set [''10.0.0.1:22'']. ascii r" "\<forall>p \<in> set [''v1'']. literal p" by code_simp+
qed

text \<open>An IPv4 network in a rule means what its notation says: a forward tunnel to \<open>Remote\<close> passes
  the network \<^verbatim>\<open>a.b.c.d/n\<close> exactly if \<open>Remote\<close> is an IPv4 address (also in its IPv6-mapped form)
  that agrees with \<^verbatim>\<open>a.b.c.d\<close> in the first \<open>n\<close> bits; a host name never passes.\<close>

theorem tunnel_cidr_exact:
  assumes "n \<le> 32" "ParseCIDR (dotted [a, b, c, d] @ ''/'' @ itoa n) = Inr net"
  shows "TunnelAllows \<lparr>atProtocol = [], atPort = [], atHost = None, atCIDR = [net]\<rparr> claims \<longleftrightarrow>
    (let x = To4 (ParseIP (Remote claims)) in x \<noteq> [] \<and> same_prefix n [a, b, c, d] x)"
proof -
  have net: "net = \<lparr>netIP = mask_ip [a, b, c, d] (CIDRMask n 4), netMask = CIDRMask n 4\<rparr>"
    using assms ParseCIDR_v4 [of n a b c d] by simp
  have "NetContains net ip \<longleftrightarrow> To4 ip \<noteq> [] \<and> same_prefix n [a, b, c, d] (To4 ip)" for ip
    unfolding net by (rule NetContains_v4) (use assms(1) in auto)
  moreover have "To4 [] = []" by (simp add: To4_def)
  ultimately show ?thesis
    by (auto simp: TunnelAllows_def in_networks_def Let_def)
qed

theorem tunnel_cidr_exact_witness:
  "ParseCIDR (dotted [10, 1, 0, 0] @ ''/'' @ itoa 16) =
     Inr \<lparr>netIP = [10, 1, 0, 0], netMask = [255, 255, 0, 0]\<rparr> \<and>
   (TunnelAllows \<lparr>atProtocol = [], atPort = [], atHost = None,
       atCIDR = [\<lparr>netIP = [10, 1, 0, 0], netMask = [255, 255, 0, 0]\<rparr>]\<rparr> (tcp_claims ''10.1.2.3'' 22) \<longleftrightarrow>
    (let x = To4 (ParseIP (Remote (tcp_claims ''10.1.2.3'' 22))) in
       x \<noteq> [] \<and> same_prefix 16 [10, 1, 0, 0] x))"
proof -
  have p: "ParseCIDR (dotted [10, 1, 0, 0] @ ''/'' @ itoa 16) =
      Inr \<lparr>netIP = [10, 1, 0, 0], netMask = [255, 255, 0, 0]\<rparr>"
  proof -
    have "CIDRMask 16 4 = [255, 255, 0, 0]" "mask_ip [10, 1, 0, 0] [255, 255, 0, 0] = [10, 1, 0, 0]"
      by code_simp+
    with ParseCIDR_v4 [of 16 10 1 0 0] show ?thesis by simp
  qed
  show ?thesis by (intro conjI p tunnel_cidr_exact [OF _ p]) simp
qed

text \<open>The networks of a reverse rule do not restrict host names: for a \<open>Remote\<close> that is not an IP
  literal, the empty one that binds every interface included, the decision is the same as with no
  network configured.\<close>

theorem reverse_cidr_skipped:
  assumes "ParseIP (Remote claims) = []"
  shows "ReverseTunnelAllows (a\<lparr>artCIDR := nets\<rparr>) claims =
    ReverseTunnelAllows (a\<lparr>artCIDR := []\<rparr>) claims"
  using assms by (simp add: ReverseTunnelAllows_def Let_def split: option.splits)

definition reverse_claims :: "string \<Rightarrow> port \<Rightarrow> JwtTunnelConfig" where
  "reverse_claims h p = \<lparr>ID = [], Protocol = noProtocol\<lparr>ReverseTcp := Some ()\<rparr>, Remote = h, Port = p\<rparr>"

definition any_reverse :: AllowReverseTunnelConfig where
  "any_reverse = \<lparr>artProtocol = [], artPort = [], artPortMapping = [], artCIDR = [], artUnixPath = None\<rparr>"

theorem reverse_cidr_skipped_witness:
  "ParseIP (Remote (reverse_claims [] 80)) = [] \<and>
   ReverseTunnelAllows (any_reverse\<lparr>artCIDR := [\<lparr>netIP = [127, 0, 0, 0], netMask = [255, 0, 0, 0]\<rparr>]\<rparr>)
     (reverse_claims [] 80) =
   ReverseTunnelAllows (any_reverse\<lparr>artCIDR := []\<rparr>) (reverse_claims [] 80)"
proof -
  have "ParseIP (Remote (reverse_claims [] 80)) = []" by code_simp
  then show ?thesis by (intro conjI reverse_cidr_skipped)
qed

lemma port_mapping_ignored:
  "ReverseTunnelAllows (a\<lparr>artPortMapping := pm\<rparr>) claims = ReverseTunnelAllows a claims"
  by (simp add: ReverseTunnelAllows_def split: option.splits)

end
