(* ===== verification/Socks5.thy ===== *)
theory Socks5
  imports Go_IO Protocol
begin

text \<open>
  The SOCKS5 front ends: \<^verbatim>\<open>handleSocks5\<close> of the client (\<^verbatim>\<open>pkg/client/client.go\<close>), with optional
  user name and password, and \<^verbatim>\<open>handleSocks5Handshake\<close> of the reverse tunnel manager
  (\<^verbatim>\<open>pkg/server/manager.go\<close>), whose request part is the same code. Each runs on a stream that may
  end anywhere and whose writes may fail.

  The lemmas give the exact language of accepted conversations: a handshake succeeds only on the
  greeting, the configured credentials and a well-formed request, answers what the protocol
  prescribes, and leaves the bytes that follow for the tunnel.
\<close>

subsection \<open>Comparison in constant time\<close>

definition containsSocks5Method :: "byte list \<Rightarrow> byte \<Rightarrow> bool" where
  "containsSocks5Method methods want = list_ex (\<lambda>m. m = want) methods"

text \<open>The accumulated difference is an \<^verbatim>\<open>int32\<close>; the lengths are 64-bit and truncated.\<close>

definition at :: "byte list \<Rightarrow> nat \<Rightarrow> byte" where
  "at bs i = (if i < length bs then bs ! i else 0)"

definition constantTimeEqualBytes :: "byte list \<Rightarrow> byte list \<Rightarrow> bool" where
  "constantTimeEqualBytes actual expected =
     (let maxLen = max (length actual) (length expected);
          diff0 = ucast ((of_nat (length actual) :: u64) XOR of_nat (length expected)) :: u32
      in foldl (\<lambda>diff i. diff OR ucast (at actual i XOR at expected i)) diff0 [0..<maxLen] = 0)"

subsection \<open>The request, common to both front ends\<close>

definition socksResp :: "byte list" where
  "socksResp = [0x05, 0x00, 0x00, 0x01, 0, 0, 0, 0, 0, 0]"

definition socks_host :: "byte \<Rightarrow> conn \<Rightarrow> (go_error + string) \<times> conn" where
  "socks_host atyp c =
     (if atyp = 0x01 then try_io (ReadFull 4 c) (\<lambda>b c. (Inr (IP_String b), c))
      else if atyp = 0x03 then
        try_io (ReadFull 1 c) (\<lambda>b c. try_io (ReadFull (unat (b ! 0)) c) (\<lambda>h c. (Inr (string_of h), c)))
      else if atyp = 0x04 then try_io (ReadFull 16 c) (\<lambda>b c. (Inr (IP_String b), c))
      else (Inl (Errorf ''unsupported address type''), c))"

definition socks_request :: "conn \<Rightarrow> (go_error + string \<times> port) \<times> conn" where
  "socks_request c =
     try_io (ReadFull 4 c) (\<lambda>buf c.
     if buf ! 0 \<noteq> 0x05 \<or> buf ! 1 \<noteq> 0x01 then (Inl (Errorf ''unsupported socks command''), c)
     else try_io (socks_host (buf ! 3) c) (\<lambda>host c.
     try_io (ReadFull 2 c) (\<lambda>pb c.
     try_io (Write socksResp c) (\<lambda>_ c.
     (Inr (host, get_port pb), c)))))"

subsection \<open>The two handshakes\<close>

definition handleSocks5Handshake :: "conn \<Rightarrow> (go_error + string \<times> port) \<times> conn" where
  "handleSocks5Handshake c =
     try_io (ReadFull 2 c) (\<lambda>buf c.
     if buf ! 0 \<noteq> 0x05 then (Inl (Errorf ''invalid socks version''), c)
     else try_io (ReadFull (unat (buf ! 1)) c) (\<lambda>_ c.
     try_io (Write [0x05, 0x00] c) (\<lambda>_ c. socks_request c)))"

definition socks_auth :: "Credentials \<Rightarrow> conn \<Rightarrow> (go_error + unit) \<times> conn" where
  "socks_auth cr c =
     try_io (ReadFull 2 c) (\<lambda>buf c.
     if buf ! 0 \<noteq> 0x01 then (Inl (Errorf ''unsupported socks auth version''), c)
     else try_io (ReadFull (unat (buf ! 1)) c) (\<lambda>username c.
     try_io (ReadFull 1 c) (\<lambda>pl c.
     try_io (ReadFull (unat (pl ! 0)) c) (\<lambda>password c.
     let status = (if \<not> constantTimeEqualBytes username (bytes_of (Username cr)) \<or>
                      \<not> constantTimeEqualBytes password (bytes_of (Password cr)) then 0x01 else 0x00) in
     try_io (Write [0x01, status] c) (\<lambda>_ c.
     if status \<noteq> 0x00 then (Inl (Errorf ''invalid socks5 credentials''), c) else (Inr (), c))))))"

definition handleSocks5 :: "Credentials option \<Rightarrow> conn \<Rightarrow> (go_error + string \<times> port) \<times> conn" where
  "handleSocks5 credentials c =
     try_io (ReadFull 2 c) (\<lambda>buf c.
     if buf ! 0 \<noteq> 0x05 then (Inl (Errorf ''invalid socks version''), c)
     else try_io (ReadFull (unat (buf ! 1)) c) (\<lambda>methods c.
     let selected = (if credentials \<noteq> None then 0x02 else 0x00) in
     if \<not> containsSocks5Method methods selected then
       try_io (Write [0x05, 0xFF] c) (\<lambda>_ c. (Inl (Errorf ''no acceptable authentication method''), c))
     else try_io (Write [0x05, selected] c) (\<lambda>_ c.
     case credentials of
       None \<Rightarrow> socks_request c
     | Some cr \<Rightarrow> try_io (socks_auth cr c) (\<lambda>_ c. socks_request c))))"

subsection \<open>Reference encodings\<close>

datatype socks_addr = V4 "byte list" | Domain "byte list" | V6 "byte list"

fun addr_wf :: "socks_addr \<Rightarrow> bool" where
  "addr_wf (V4 ip) \<longleftrightarrow> length ip = 4"
| "addr_wf (Domain d) \<longleftrightarrow> length d < 256"
| "addr_wf (V6 ip) \<longleftrightarrow> length ip = 16"

fun addr_bytes :: "socks_addr \<Rightarrow> byte list" where
  "addr_bytes (V4 ip) = 0x01 # ip"
| "addr_bytes (Domain d) = 0x03 # of_nat (length d) # d"
| "addr_bytes (V6 ip) = 0x04 # ip"

fun addr_host :: "socks_addr \<Rightarrow> string" where
  "addr_host (V4 ip) = IP_String ip"
| "addr_host (Domain d) = string_of d"
| "addr_host (V6 ip) = IP_String ip"

definition hello_bytes :: "byte list \<Rightarrow> byte list" where
  "hello_bytes ms = [0x05, of_nat (length ms)] @ ms"

definition auth_bytes :: "Credentials \<Rightarrow> byte list" where
  "auth_bytes cr = [0x01, of_nat (length (Username cr))] @ bytes_of (Username cr) @
     [of_nat (length (Password cr))] @ bytes_of (Password cr)"

definition request_bytes :: "byte \<Rightarrow> socks_addr \<Rightarrow> port \<Rightarrow> byte list" where
  "request_bytes rsv a p = [0x05, 0x01, rsv] @ addr_bytes a @ put_port p"

subsection \<open>Comparison is equality\<close>

lemma foldl_or_zero:
  "foldl (\<lambda>d i. d OR f i) (d0 :: u32) xs = 0 \<longleftrightarrow> d0 = 0 \<and> (\<forall>i \<in> set xs. f i = 0)"
  by (induction xs arbitrary: d0) (auto simp: or_eq_0_iff)

lemma ucast_byte_zero: "(ucast (b :: byte) :: u32) = 0 \<longleftrightarrow> b = 0"
  by transfer simp

lemma xor_zero_iff: "(x :: 'a::len word) XOR y = 0 \<longleftrightarrow> x = y"
  by (metis xor_self_eq xor.left_neutral xor.assoc xor.right_neutral)

lemma length_xor_zero:
  assumes "a < 2 ^ 32" "b < 2 ^ 32"
  shows "(ucast ((of_nat a :: u64) XOR of_nat b) :: u32) = 0 \<longleftrightarrow> a = b"
proof
  assume z: "(ucast ((of_nat a :: u64) XOR of_nat b) :: u32) = 0"
  have "(ucast ((of_nat a :: u64) XOR of_nat b) :: u32) = of_nat a XOR of_nat b" by transfer simp
  with z have "(of_nat a :: u32) = of_nat b" by (simp add: xor_zero_iff)
  then have "unat (of_nat a :: u32) = unat (of_nat b :: u32)" by simp
  with assms show "a = b" by (simp add: unat_of_nat)
qed simp

lemma constantTimeEqualBytes_iff:
  assumes "length a < 2 ^ 32" "length b < 2 ^ 32"
  shows "constantTimeEqualBytes a b \<longleftrightarrow> a = b"
proof -
  have "constantTimeEqualBytes a b \<longleftrightarrow>
      length a = length b \<and> (\<forall>i < max (length a) (length b). at a i = at b i)"
    unfolding constantTimeEqualBytes_def Let_def foldl_or_zero length_xor_zero [OF assms]
    by (auto simp: ucast_byte_zero xor_zero_iff)
  also have "\<dots> \<longleftrightarrow> a = b" by (auto simp: list_eq_iff_nth_eq at_def)
  finally show ?thesis .
qed

subsection \<open>Accepted conversations\<close>

lemma Write_Inr:
  assumes "Write p c = (Inr (), c')"
  shows "inp c' = inp c" "rend c' = rend c" "sent (out c') = sent (out c) @ p"
  using assms by (auto simp: Write_def sink_write_def split: option.splits prod.splits if_splits)

lemma ReadFull_Inr_out:
  assumes "ReadFull n c = (Inr xs, c')"
  shows "inp c = xs @ inp c'" "length xs = n" "out c' = out c"
  using assms by (auto simp: ReadFull_Inr)

lemma one_byte: "length xs = 1 \<Longrightarrow> xs = [xs ! 0]"
  by (cases xs) auto

lemma two_bytes: "length xs = 2 \<Longrightarrow> xs = [xs ! 0, xs ! 1]"
  by (auto simp: numeral_2_eq_2 length_Suc_conv)

lemma four_bytes: "length xs = 4 \<Longrightarrow> xs = [xs ! 0, xs ! 1, xs ! 2, xs ! 3]"
  by (auto simp: numeral_eq_Suc length_Suc_conv)

lemma put_get_port: "length bs = 2 \<Longrightarrow> put_port (get_port bs) = bs"
proof -
  assume "length bs = 2"
  then obtain a b where bs: "bs = [a, b]" by (metis two_bytes)
  have lt: "unat a * 256 + unat b < 65536" using unat_byte_less [of a] unat_byte_less [of b] by linarith
  have "unat (get_port bs) = unat a * 256 + unat b"
    using lt by (simp add: bs get_port_def be_dec_def unat_of_nat del: of_nat_add of_nat_mult)
  then have "put_port (get_port bs) =
      [of_nat ((unat a * 256 + unat b) div 256), of_nat (unat a * 256 + unat b)]"
    by (simp add: put_port_def numeral_2_eq_2 del: of_nat_add of_nat_mult)
  moreover have "(unat a * 256 + unat b) div 256 = unat a" using unat_byte_less [of b] by simp
  moreover have "(of_nat (unat a * 256 + unat b) :: byte) = b"
    unfolding word_unat_eq_iff unat_of_nat by simp
  ultimately show ?thesis by (simp add: bs del: of_nat_add of_nat_mult)
qed

lemma socks_host_Inr:
  assumes "socks_host atyp c = (Inr h, c')"
  obtains a where "addr_wf a" "h = addr_host a" "atyp # inp c = addr_bytes a @ inp c'" "out c' = out c"
proof -
  consider "atyp = 1" | "atyp = 3" | "atyp = 4"
    using assms by (auto simp: socks_host_def split: if_splits)
  then show thesis
  proof cases
    case 1
    with assms obtain b where "ReadFull 4 c = (Inr b, c')" "h = IP_String b"
      by (auto simp: socks_host_def try_io_Inr)
    with 1 show thesis by (intro that [of "V4 b"]) (auto dest: ReadFull_Inr_out)
  next
    case 2
    with assms obtain l c1 d where r: "ReadFull 1 c = (Inr l, c1)"
      "ReadFull (unat (l ! 0)) c1 = (Inr d, c')" "h = string_of d"
      by (auto simp: socks_host_def try_io_Inr)
    from ReadFull_Inr_out [OF r(1)] ReadFull_Inr_out [OF r(2)] one_byte [of l]
    have "inp c = [l ! 0] @ d @ inp c'" "length d = unat (l ! 0)" "out c' = out c" by metis+
    with 2 r(3) show thesis by (intro that [of "Domain d"]) auto
  next
    case 3
    with assms obtain b where "ReadFull 16 c = (Inr b, c')" "h = IP_String b"
      by (auto simp: socks_host_def try_io_Inr)
    with 3 show thesis by (intro that [of "V6 b"]) (auto dest: ReadFull_Inr_out)
  qed
qed

lemma socks_request_Inr:
  assumes "socks_request c = (Inr (h, p), c')"
  obtains rsv a where "addr_wf a" "h = addr_host a" "inp c = request_bytes rsv a p @ inp c'"
    "sent (out c') = sent (out c) @ socksResp"
proof -
  from assms obtain b c1 c2 pb c3 where b: "ReadFull 4 c = (Inr b, c1)" "b ! 0 = 5" "b ! 1 = 1"
    and hst: "socks_host (b ! 3) c1 = (Inr h, c2)"
    and pb: "ReadFull 2 c2 = (Inr pb, c3)" "p = get_port pb"
    and w: "Write socksResp c3 = (Inr (), c')"
    by (auto simp: socks_request_def try_io_Inr split: if_splits)
  from hst obtain a where a: "addr_wf a" "h = addr_host a" "b ! 3 # inp c1 = addr_bytes a @ inp c2"
    "out c2 = out c1" by (rule socks_host_Inr)
  have "inp c = [5, 1, b ! 2, b ! 3] @ inp c1"
    using ReadFull_Inr_out [OF b(1)] four_bytes [of b] b(2,3) by metis
  moreover have "inp c2 = put_port p @ inp c'"
    using ReadFull_Inr_out [OF pb(1)] pb(2) put_get_port Write_Inr(1) [OF w] by simp
  ultimately have "inp c = request_bytes (b ! 2) a p @ inp c'"
    using a(3) by (simp add: request_bytes_def)
  with a(1,2) show thesis
    using Write_Inr(3) [OF w] ReadFull_Inr_out [OF pb(1)] ReadFull_Inr_out [OF b(1)] a(4)
    by (intro that [of a "b ! 2"]) simp_all
qed

lemma socks_auth_Inr:
  assumes "socks_auth cr c = (Inr (), c')"
    and len: "length (Username cr) < 2 ^ 32" "length (Password cr) < 2 ^ 32"
  shows "inp c = auth_bytes cr @ inp c'" "sent (out c') = sent (out c) @ [0x01, 0x00]"
proof -
  from assms(1) obtain b c1 u c2 l c3 pw c4 where b: "ReadFull 2 c = (Inr b, c1)" "b ! 0 = 1"
    and u: "ReadFull (unat (b ! 1)) c1 = (Inr u, c2)"
    and l: "ReadFull 1 c2 = (Inr l, c3)"
    and pw: "ReadFull (unat (l ! 0)) c3 = (Inr pw, c4)"
    and eq: "constantTimeEqualBytes u (bytes_of (Username cr))"
      "constantTimeEqualBytes pw (bytes_of (Password cr))"
    and w: "Write [0x01, 0x00] c4 = (Inr (), c')"
    by (auto simp: socks_auth_def try_io_Inr Let_def split: if_splits)
  note r = ReadFull_Inr_out [OF b(1)] ReadFull_Inr_out [OF u] ReadFull_Inr_out [OF l] ReadFull_Inr_out [OF pw]
  have "unat (x :: byte) < 2 ^ 32" for x by (rule less_trans [OF unat_byte_less]) simp
  then have "length u < 2 ^ 32" "length pw < 2 ^ 32" unfolding r(5,11) by blast+
  with eq len have ue: "u = bytes_of (Username cr)" and pe: "pw = bytes_of (Password cr)"
    by (simp_all add: constantTimeEqualBytes_iff)
  have "b = [1, b ! 1]" "l = [l ! 0]" using two_bytes [of b] one_byte [of l] b(2) r(2,8) by auto
  moreover have "b ! 1 = of_nat (length u)" "l ! 0 = of_nat (length pw)"
    using r(5,11) by simp_all
  ultimately have "inp c = [1, of_nat (length u)] @ u @ [of_nat (length pw)] @ pw @ inp c4"
    using r(1,4,7,10) by (metis append.assoc)
  then show "inp c = auth_bytes cr @ inp c'"
    using Write_Inr(1) [OF w] ue pe by (simp add: auth_bytes_def)
  show "sent (out c') = sent (out c) @ [0x01, 0x00]"
    using Write_Inr(3) [OF w] r(3,6,9,12) by simp
qed

text \<open>What the stream looks like after a successful exchange without write failures.\<close>

abbreviation answered :: "conn \<Rightarrow> byte list \<Rightarrow> byte list \<Rightarrow> conn" where
  "answered c rest reply \<equiv> c\<lparr>inp := rest, out := (out c)\<lparr>sent := sent (out c) @ reply\<rparr>\<rparr>"

lemma unat_of_nat_byte [simp]: "n < 256 \<Longrightarrow> unat (of_nat n :: byte) = n"
  by (simp add: unat_of_nat)

lemma ReadFull_Cons:
  "inp c = x # ys \<Longrightarrow> ReadFull (Suc 0) c = (Inr [x], c\<lparr>inp := ys\<rparr>)"
  using ReadFull_exact [of c "[x]" ys 1] by simp

lemma ReadFull_Cons2:
  "inp c = x # y # ys \<Longrightarrow> ReadFull 2 c = (Inr [x, y], c\<lparr>inp := ys\<rparr>)"
  using ReadFull_exact [of c "[x, y]" ys 2] by simp

lemma socks_host_complete:
  assumes "addr_wf a" "inp c = tl (addr_bytes a) @ rest"
  shows "socks_host (hd (addr_bytes a)) c = (Inr (addr_host a), c\<lparr>inp := rest\<rparr>)"
  using assms by (cases a) (simp_all add: socks_host_def ReadFull_exact ReadFull_Cons)

lemma addr_bytes_hd_tl: "addr_bytes a = hd (addr_bytes a) # tl (addr_bytes a)"
  by (cases a) auto

lemma socks_request_complete:
  assumes "addr_wf a" "inp c = request_bytes rsv a p @ rest" "limit (out c) = None"
  shows "socks_request c = (Inr (addr_host a, p), answered c rest socksResp)"
proof -
  let ?t = "hd (addr_bytes a)" and ?r = "tl (addr_bytes a) @ put_port p @ rest"
  have "inp c = [5, 1, rsv, ?t] @ ?r"
    using assms(2) addr_bytes_hd_tl [of a] unfolding request_bytes_def
    by (metis append.assoc append_Cons append_Nil)
  then have r: "ReadFull 4 c = (Inr [5, 1, rsv, ?t], c\<lparr>inp := ?r\<rparr>)"
    by (rule ReadFull_exact) simp
  have h: "socks_host ?t (c\<lparr>inp := ?r\<rparr>) = (Inr (addr_host a), c\<lparr>inp := put_port p @ rest\<rparr>)"
    using socks_host_complete [OF assms(1), of "c\<lparr>inp := ?r\<rparr>" "put_port p @ rest"] by simp
  have "ReadFull 2 (c\<lparr>inp := put_port p @ rest\<rparr>) = (Inr (put_port p), c\<lparr>inp := rest\<rparr>)"
    using ReadFull_exact [of "c\<lparr>inp := put_port p @ rest\<rparr>" "put_port p" rest 2] by simp
  with r h show ?thesis using assms(3) by (simp add: socks_request_def Write_ok)
qed

lemma length_bytes_of [simp]: "length (bytes_of s) = length s"
  by (simp add: bytes_of_def)

lemma socks_auth_complete:
  assumes "length (Username cr) < 256" "length (Password cr) < 256"
    and "inp c = auth_bytes cr @ rest" "limit (out c) = None"
  shows "socks_auth cr c = (Inr (), answered c rest [0x01, 0x00])"
proof -
  let ?u = "bytes_of (Username cr)" and ?p = "bytes_of (Password cr)"
  have "ReadFull 2 c = (Inr [1, of_nat (length ?u)],
      c\<lparr>inp := ?u @ of_nat (length ?p) # ?p @ rest\<rparr>)"
    using assms(3) by (intro ReadFull_Cons2) (simp add: auth_bytes_def)
  moreover have "constantTimeEqualBytes ?u ?u" "constantTimeEqualBytes ?p ?p"
    using assms(1,2) by (simp_all add: constantTimeEqualBytes_iff)
  ultimately show ?thesis
    using assms(1,2,4) by (simp add: socks_auth_def ReadFull_exact ReadFull_Cons Write_ok)
qed

lemma hello_read:
  assumes "ReadFull 2 c = (Inr b, c1)" "b ! 0 = 5" "ReadFull (unat (b ! 1)) c1 = (Inr ms, c2)"
  shows "inp c = hello_bytes ms @ inp c2" "out c2 = out c"
proof -
  note r = ReadFull_Inr_out [OF assms(1)] ReadFull_Inr_out [OF assms(3)]
  have "b = [5, of_nat (length ms)]" using two_bytes [OF r(2)] assms(2) r(5) by simp
  then show "inp c = hello_bytes ms @ inp c2" using r(1,4) by (simp add: hello_bytes_def)
  show "out c2 = out c" using r(3,6) by simp
qed

lemma hello_complete:
  assumes "length ms < 256" "inp c = hello_bytes ms @ rest"
  shows "ReadFull 2 c = (Inr [5, of_nat (length ms)], c\<lparr>inp := ms @ rest\<rparr>)"
    "ReadFull (unat (of_nat (length ms) :: byte)) (c\<lparr>inp := ms @ rest\<rparr>) = (Inr ms, c\<lparr>inp := rest\<rparr>)"
  using assms by (auto simp: hello_bytes_def intro!: ReadFull_Cons2 simp: ReadFull_exact)

text \<open>\<open>constantTimeEqualBytes\<close> is equality for slices shorter than 4 GiB, the bound below which
  the truncation of the length difference to 32 bits loses nothing.\<close>

theorem constant_time_equality:
  assumes "length a < 2 ^ 32" "length b < 2 ^ 32"
  shows "constantTimeEqualBytes a b \<longleftrightarrow> a = b"
  by (rule constantTimeEqualBytes_iff [OF assms])

theorem constant_time_equality_witness:
  "length [1, 2 :: byte] < 2 ^ 32 \<and> (constantTimeEqualBytes [1, 2] [1, 2, 0] \<longleftrightarrow> [1, 2] = [1, 2, 0 :: byte])"
  using constant_time_equality [of "[1, 2]" "[1, 2, 0]"] by simp


definition demo_cred :: Credentials where
  "demo_cred = \<lparr>Username = ''bob'', Password = ''pw''\<rparr>"

definition demo_socks :: conn where
  "demo_socks = \<lparr>inp = [5, 1, 2, 1, 3, 0x62, 0x6F, 0x62, 2, 0x70, 0x77,
       5, 1, 0, 3, 1, 0x61, 0x01, 0xBB, 0x17], rend = EOF, out = fresh_sink\<rparr>"

lemma demo_socks_run:
  "handleSocks5 (Some demo_cred) demo_socks =
     (Inr (''a'', 443), answered demo_socks [0x17] ([0x05, 0x02, 0x01, 0x00] @ socksResp))"
  by code_simp


text \<open>C28. Every conforming conversation is accepted: with or without configured credentials (of at most
  255 bytes each), a greeting that offers the required method, the credentials if required and
  a well-formed request give the requested target, and the rest of the input is untouched.\<close>

theorem socks5_accepts:
  assumes "length ms < 256" "(case cr of None \<Rightarrow> 0x00 | Some _ \<Rightarrow> 0x02) \<in> set ms" "addr_wf a"
    and "\<forall>x. cr = Some x \<longrightarrow> length (Username x) < 256 \<and> length (Password x) < 256"
    and "inp c = hello_bytes ms @ (case cr of None \<Rightarrow> [] | Some x \<Rightarrow> auth_bytes x) @
      request_bytes rsv a p @ rest"
    and "limit (out c) = None"
  shows "handleSocks5 cr c = (Inr (addr_host a, p),
    answered c rest ((case cr of None \<Rightarrow> [0x05, 0x00] | Some _ \<Rightarrow> [0x05, 0x02, 0x01, 0x00]) @ socksResp))"
proof (cases cr)
  case None
  let ?r = "request_bytes rsv a p @ rest"
  have i: "inp c = hello_bytes ms @ ?r" using assms(5) None by simp
  have "containsSocks5Method ms 0" using assms(2) None by (auto simp: containsSocks5Method_def list_ex_iff)
  moreover have "socks_request (answered c ?r [5, 0]) =
      (Inr (addr_host a, p), answered (answered c ?r [5, 0]) rest socksResp)"
    by (rule socks_request_complete [OF assms(3)]) (use assms(6) in simp_all)
  ultimately show ?thesis
    using None assms(6) hello_complete [OF assms(1) i] by (simp add: handleSocks5_def Write_ok)
next
  case (Some x)
  let ?r = "request_bytes rsv a p @ rest" and ?q = "auth_bytes x @ request_bytes rsv a p @ rest"
  have i: "inp c = hello_bytes ms @ ?q" using assms(5) Some by simp
  have "containsSocks5Method ms 2" using assms(2) Some by (auto simp: containsSocks5Method_def list_ex_iff)
  moreover have "socks_auth x (answered c ?q [5, 2]) =
      (Inr (), answered (answered c ?q [5, 2]) ?r [1, 0])"
    by (rule socks_auth_complete) (use assms(4,6) Some in simp_all)
  moreover have "socks_request (answered c ?r [5, 2, 1, 0]) =
      (Inr (addr_host a, p), answered (answered c ?r [5, 2, 1, 0]) rest socksResp)"
    by (rule socks_request_complete [OF assms(3)]) (use assms(6) in simp_all)
  ultimately show ?thesis
    using Some assms(6) hello_complete [OF assms(1) i] by (simp add: handleSocks5_def Write_ok)
qed

theorem socks5_accepts_witness:
  "handleSocks5 (Some demo_cred) demo_socks = (Inr (addr_host (Domain [0x61]), 443),
    answered demo_socks [0x17] ((case Some demo_cred of None \<Rightarrow> [0x05, 0x00]
      | Some _ \<Rightarrow> [0x05, 0x02, 0x01, 0x00]) @ socksResp))"
proof (rule socks5_accepts [where ms = "[2]" and rsv = 0])
  show "inp demo_socks = hello_bytes [2] @
      (case Some demo_cred of None \<Rightarrow> [] | Some x \<Rightarrow> auth_bytes x) @
      request_bytes 0 (Domain [0x61]) 443 @ [0x17]" by code_simp
qed (simp_all add: demo_cred_def demo_socks_def fresh_sink_def)

text \<open>The reverse tunnel's SOCKS5 handshake accepts exactly the conversations of a greeting and a
  well-formed CONNECT request, and answers them without authentication.\<close>

theorem reverse_socks5_exact:
  assumes "limit (out c) = None"
  shows "handleSocks5Handshake c = (Inr (h, p), c') \<longleftrightarrow>
    (\<exists>ms rsv a rest. length ms < 256 \<and> addr_wf a \<and> h = addr_host a \<and>
       inp c = hello_bytes ms @ request_bytes rsv a p @ rest \<and>
       c' = answered c rest ([0x05, 0x00] @ socksResp))"
proof -
  have run: "handleSocks5Handshake c = (Inr (addr_host a, p), answered c rest ([0x05, 0x00] @ socksResp))"
    if "length ms < 256" "addr_wf a" "inp c = hello_bytes ms @ request_bytes rsv a p @ rest" for ms rsv a rest p
  proof -
    let ?r = "request_bytes rsv a p @ rest"
    have "socks_request (answered c ?r [5, 0]) =
        (Inr (addr_host a, p), answered (answered c ?r [5, 0]) rest socksResp)"
      by (rule socks_request_complete [OF that(2)]) (use assms in simp_all)
    then show ?thesis
      using assms hello_complete [OF that(1,3)] by (simp add: handleSocks5Handshake_def Write_ok)
  qed
  show ?thesis
  proof
    assume s: "handleSocks5Handshake c = (Inr (h, p), c')"
    then obtain b c1 ms c2 c3 where hl: "ReadFull 2 c = (Inr b, c1)" "b ! 0 = 5"
        "ReadFull (unat (b ! 1)) c1 = (Inr ms, c2)"
      and w: "Write [0x05, 0x00] c2 = (Inr (), c3)" and rq: "socks_request c3 = (Inr (h, p), c')"
      by (auto simp: handleSocks5Handshake_def try_io_Inr split: if_splits)
    from rq obtain rsv a where a: "addr_wf a" "h = addr_host a" "inp c3 = request_bytes rsv a p @ inp c'"
      by (rule socks_request_Inr)
    have i: "inp c = hello_bytes ms @ request_bytes rsv a p @ inp c'"
      using hello_read(1) [OF hl] Write_Inr(1) [OF w] a(3) by simp
    have l: "length ms < 256" using ReadFull_Inr_out(2) [OF hl(3)] by simp
    have "c' = answered c (inp c') ([0x05, 0x00] @ socksResp)" using run [OF l a(1) i] s by simp
    with l a(1,2) i show
      "\<exists>ms rsv a rest. length ms < 256 \<and> addr_wf a \<and> h = addr_host a \<and>
         inp c = hello_bytes ms @ request_bytes rsv a p @ rest \<and>
         c' = answered c rest ([0x05, 0x00] @ socksResp)" by blast
  qed (use run in blast)
qed

definition demo_rsocks :: conn where
  "demo_rsocks = \<lparr>inp = [5, 1, 0, 5, 1, 0, 1, 10, 0, 0, 1, 0, 22], rend = EOF, out = fresh_sink\<rparr>"

theorem reverse_socks5_exact_witness:
  "limit (out demo_rsocks) = None \<and>
   (handleSocks5Handshake demo_rsocks =
      (Inr (''10.0.0.1'', 22), answered demo_rsocks [] ([0x05, 0x00] @ socksResp)) \<longleftrightarrow>
    (\<exists>ms rsv a rest. length ms < 256 \<and> addr_wf a \<and> ''10.0.0.1'' = addr_host a \<and>
       inp demo_rsocks = hello_bytes ms @ request_bytes rsv a 22 @ rest \<and>
       answered demo_rsocks [] ([0x05, 0x00] @ socksResp) = answered demo_rsocks rest ([0x05, 0x00] @ socksResp)))"
  by (intro conjI reverse_socks5_exact) (simp_all add: demo_rsocks_def fresh_sink_def)

end
