(* ===== verification/Target_Frame.thy ===== *)
theory Target_Frame
  imports Wst_Conn Socks5
begin

text \<open>
  The frame in which the server tells a reverse tunnel client where to connect
  (\<^verbatim>\<open>encodeTargetFrame\<close> in \<^verbatim>\<open>pkg/server/manager.go\<close>, \<^verbatim>\<open>readTargetFrame\<close> in
  \<^verbatim>\<open>pkg/client/client.go\<close>): a version byte, the host with a length byte, the port. Over a WebSocket it
  is one message, over HTTP/2 it is the start of the byte stream. The lemmas show that the two
  ends agree, over either transport, and that every target of the SOCKS5 handshake fits.
\<close>

definition encodeTargetFrame :: "string \<Rightarrow> port \<Rightarrow> go_error + byte list" where
  "encodeTargetFrame host p =
     (if length host > 255 then Inl (Errorf ''host length exceeds 255 bytes'')
      else Inr ([0x01, of_nat (length host)] @ bytes_of host @ put_port p))"

definition parseTargetFrame :: "byte list \<Rightarrow> go_error + string \<times> port" where
  "parseTargetFrame payload =
     (if length payload < 4 then Inl (Errorf ''target frame too short'')
      else if payload ! 0 \<noteq> 0x01 then Inl (Errorf ''invalid target frame version'')
      else let hostLen = unat (payload ! 1) in
        if length payload < 2 + hostLen + 2 then Inl (Errorf ''target frame truncated'')
        else Inr (string_of (take hostLen (drop 2 payload)), get_port (take 2 (drop (2 + hostLen) payload))))"

text \<open>The tunnel stream of the client: exactly one of the three transports, or none. The read
  operation of the third-party WebSocket is a parameter.\<close>

datatype 'g tunnelStream = WS Conn | Gorilla 'g | H2 conn | NoStream

type_synonym 'g message_reader = "'g \<Rightarrow> (nat \<times> byte list \<times> go_error option) \<times> 'g"

fun readTargetFrame ::
  "'g message_reader \<Rightarrow> 'g tunnelStream \<Rightarrow> (go_error + string \<times> port) \<times> 'g tunnelStream" where
  "readTargetFrame gread (WS c) =
     (case ReadMessage c of
        ((_, _, Some e), c') \<Rightarrow> (Inl e, WS c')
      | ((_, data, None), c') \<Rightarrow> (parseTargetFrame data, WS c'))"
| "readTargetFrame gread (Gorilla g) =
     (case gread g of
        ((_, _, Some e), g') \<Rightarrow> (Inl e, Gorilla g')
      | ((_, data, None), g') \<Rightarrow> (parseTargetFrame data, Gorilla g'))"
| "readTargetFrame gread (H2 c) =
     (case try_io (ReadFull 2 c) (\<lambda>hdr c.
        if hdr ! 0 \<noteq> 0x01 then (Inl (Errorf ''invalid target frame version''), c)
        else try_io (ReadFull (unat (hdr ! 1) + 2) c) (\<lambda>rest c. (parseTargetFrame (hdr @ rest), c)))
      of (r, c') \<Rightarrow> (r, H2 c'))"
| "readTargetFrame gread NoStream = (Inl (Errorf ''no active stream''), NoStream)"

subsection \<open>The two ends agree\<close>

lemma parseTargetFrame_Inr:
  "parseTargetFrame payload = Inr (h, p) \<longleftrightarrow>
     (\<exists>f junk. encodeTargetFrame h p = Inr f \<and> payload = f @ junk)"
proof
  assume "parseTargetFrame payload = Inr (h, p)"
  then obtain n where n: "n = unat (payload ! 1)" and l: "2 + n + 2 \<le> length payload"
    and v: "payload ! 0 = 1" and h: "h = string_of (take n (drop 2 payload))"
    and p: "p = get_port (take 2 (drop (2 + n) payload))"
    by (auto simp: parseTargetFrame_def Let_def split: if_splits)
  let ?t = "take 2 (drop (2 + n) payload)"
  have "n < 256" unfolding n by simp
  have hl: "bytes_of h = take n (drop 2 payload)" by (simp add: h bytes_of_string_of)
  then have "length (bytes_of h) = n" using l by simp
  then have hn: "length h = n" by simp
  have "put_port p = ?t" using l by (simp add: p put_get_port)
  moreover have "take 2 payload = [1, of_nat n]"
    using l v n by (intro nth_equalityI) (auto simp: less_Suc_eq numeral_2_eq_2)
  moreover have "payload = take 2 payload @ take n (drop 2 payload) @ ?t @ drop (2 + n + 2) payload"
    by (metis append_take_drop_id drop_drop add.commute)
  ultimately have "payload = ([1, of_nat (length h)] @ bytes_of h @ put_port p) @ drop (2 + n + 2) payload"
    using hl hn by simp
  moreover have "encodeTargetFrame h p = Inr ([1, of_nat (length h)] @ bytes_of h @ put_port p)"
    using hn \<open>n < 256\<close> by (simp add: encodeTargetFrame_def)
  ultimately show "\<exists>f junk. encodeTargetFrame h p = Inr f \<and> payload = f @ junk" by blast
next
  assume "\<exists>f junk. encodeTargetFrame h p = Inr f \<and> payload = f @ junk"
  then obtain junk where "length h < 256" and pl: "payload = [1, of_nat (length h)] @ bytes_of h @ put_port p @ junk"
    by (auto simp: encodeTargetFrame_def split: if_splits)
  moreover have "take (length h) (bytes_of h @ put_port p @ junk) = bytes_of h"
    "take 2 (drop (length h) (bytes_of h @ put_port p @ junk)) = put_port p" by simp_all
  ultimately show "parseTargetFrame payload = Inr (h, p)"
    by (simp add: parseTargetFrame_def Let_def string_of_bytes_of)
qed

lemma readTargetFrame_h2:
  assumes "encodeTargetFrame h p = Inr f" "inp c = f @ rest"
  shows "readTargetFrame gread (H2 c) = (Inr (h, p), H2 (c\<lparr>inp := rest\<rparr>))"
proof -
  from assms(1) have f: "f = [1, of_nat (length h)] @ bytes_of h @ put_port p" and l: "length h < 256"
    by (auto simp: encodeTargetFrame_def split: if_splits)
  have r1: "ReadFull 2 c = (Inr [1, of_nat (length h)], c\<lparr>inp := bytes_of h @ put_port p @ rest\<rparr>)"
    using assms(2) f by (intro ReadFull_Cons2) simp
  have r2: "ReadFull (length h + 2) (c\<lparr>inp := bytes_of h @ put_port p @ rest\<rparr>) =
      (Inr (bytes_of h @ put_port p), c\<lparr>inp := rest\<rparr>)"
    using ReadFull_exact [of "c\<lparr>inp := bytes_of h @ put_port p @ rest\<rparr>" "bytes_of h @ put_port p" rest]
    by simp
  have "parseTargetFrame f = Inr (h, p)" using parseTargetFrame_Inr [of f h p] assms(1) by auto
  with r1 r2 l f show ?thesis by simp
qed

lemma frame_fits:
  assumes "encodeTargetFrame h p = Inr f"
  shows "int (length f) \<le> maxPayload"
  using assms by (auto simp: encodeTargetFrame_def maxPayload_def split: if_splits)

lemma frame_delivery:
  assumes "encodeTargetFrame h p = Inr f" "bw_ok (bufw s)"
  shows "\<exists>s' w. WriteMessage s BinaryMessage f = (None, s') \<and> on_wire s' = accepted (bufw s) @ w \<and>
    (\<forall>r rest. rd r = w @ rest \<longrightarrow>
       readTargetFrame gread (WS r) = (Inr (h, p), WS (r\<lparr>rd := rest\<rparr>)))"
proof -
  obtain b where w: "WriteMessage s BinaryMessage f = (None, s\<lparr>bufw := b\<rparr>)"
    "sent (bsink b) = accepted (bufw s) @ frame_bytes (masking s) BinaryMessage f"
    by (rule WriteMessage_ok [OF assms(2)])
  have "parseTargetFrame f = Inr (h, p)" using parseTargetFrame_Inr [of f h p] assms(1) by auto
  moreover have "ReadMessage r = ((BinaryMessage, f, None), r\<lparr>rd := rest\<rparr>)"
    if "rd r = frame_bytes (masking s) BinaryMessage f @ rest" for r rest
    using readFrame_frame_bytes [OF that _ frame_fits [OF assms(1)]]
    by (intro ReadMessage_data) (simp_all add: message_type_defs)
  ultimately show ?thesis
    using w by (intro exI [of _ "s\<lparr>bufw := b\<rparr>"]
        exI [of _ "frame_bytes (masking s) BinaryMessage f"]) (simp add: on_wire_def)
qed


definition demo_gread :: "unit message_reader" where
  "demo_gread g = ((0, [], Some EOF), ())"


subsection \<open>SOCKS5 targets fit into a frame\<close>

lemma length_itoa_le: "n < 1000 \<Longrightarrow> length (itoa n) \<le> 3"
  by (subst itoa.simps, simp, subst itoa.simps, simp, subst itoa.simps, simp)

lemma length_hex_le: "n < 65536 \<Longrightarrow> length (hex n) \<le> 4"
  by (subst hex.simps, simp, subst hex.simps, simp, subst hex.simps, simp, subst hex.simps, simp)

lemma length_dotted_le: "length (dotted bs) \<le> 4 * length bs"
proof (induction bs rule: dotted.induct)
  case (2 b)
  have "unat b < 1000" by (rule less_trans [OF unat_byte_less]) simp
  with length_itoa_le [of "unat b"] show ?case by simp
next
  case (3 b b' bs)
  have "unat b < 1000" by (rule less_trans [OF unat_byte_less]) simp
  with 3 length_itoa_le [of "unat b"] show ?case by simp
qed simp

lemma groups_bound: "g \<in> set (groups bs) \<Longrightarrow> g < 65536"
proof (induction bs rule: groups.induct)
  case (1 a b bs)
  have "unat a * 256 + unat b < 65536" using unat_byte_less [of a] unat_byte_less [of b] by linarith
  with 1 show ?case by auto
qed auto

lemma length_groups: "length (groups bs) = length bs div 2"
  by (induction bs rule: groups.induct) auto

lemma length_print6:
  assumes "\<forall>g \<in> set gs. g < 65536" "length gs = 8"
  shows "length (print6 k gs z i) \<le> 6 * k"
proof (induction k arbitrary: i)
  case (Suc k)
  have h: "j < 8 \<longrightarrow> length (hex (gs ! j)) \<le> 4" for j
    using assms by (auto intro: length_hex_le)
  show ?case
    using h [of i] h [of "snd z"] Suc [of "snd z + 1"] Suc [of "i + 1"] by auto
qed simp

lemma length_IP_String:
  assumes "length ip = 4 \<or> length ip = 16"
  shows "length (IP_String ip) \<le> 255"
proof -
  have "length (To4 ip) \<le> 4" by (auto simp: To4_def)
  with length_dotted_le [of "To4 ip"] have d: "length (dotted (To4 ip)) \<le> 255" by linarith
  have p: "length (print6 8 (groups ip) z 0) \<le> 255" if "length ip = 16" for z
    using length_print6 [of "groups ip" 8 z 0] groups_bound that by (auto simp: length_groups)
  show ?thesis
  proof (cases "To4 ip = []")
    case True
    then have "length ip \<noteq> 4" by (auto simp: To4_def)
    with assms True p show ?thesis by (auto simp: IP_String_def)
  qed (use assms d in \<open>auto simp: IP_String_def\<close>)
qed

lemma socks_target_encodes:
  assumes "addr_wf a"
  shows "\<exists>f. encodeTargetFrame (addr_host a) p = Inr f"
  using assms length_IP_String
  by (cases a) (auto simp: encodeTargetFrame_def string_of_def not_less)



end
