(* ===== verification/Proxy_Header.thy ===== *)
theory Proxy_Header
  imports Go_IO Protocol
begin

text \<open>
  The PROXY protocol headers of \<^verbatim>\<open>pkg/tunnel/proxyproto.go\<close>. A \<^verbatim>\<open>net.Addr\<close> is one of the two socket
  addresses (a possibly nil pointer), any other address known by its text, or nil. The lemmas
  decode the binary header with an independent reader of the format and get the addresses back.
\<close>

datatype net_addr = TCPAddr "(IP \<times> int) option" | UDPAddr "(IP \<times> int) option" | OtherAddr string | NilAddr

definition v2Signature :: "byte list" where
  "v2Signature = [0x0D, 0x0A, 0x0D, 0x0A, 0x00, 0x0D, 0x0A, 0x51, 0x55, 0x49, 0x54, 0x0A]"

definition socket_addr :: "(IP \<times> int) option \<Rightarrow> (IP \<times> port) option" where
  "socket_addr v = (case v of
      None \<Rightarrow> None
    | Some (ip, p) \<Rightarrow> if ip = [] then None else Some (ip, of_int p))"

definition parseIPPort :: "net_addr \<Rightarrow> (IP \<times> port) option" where
  "parseIPPort a =
     (case a of
        NilAddr \<Rightarrow> None
      | TCPAddr v \<Rightarrow> socket_addr v
      | UDPAddr v \<Rightarrow> socket_addr v
      | OtherAddr s \<Rightarrow>
          (case SplitHostPort s of
             Inl _ \<Rightarrow> None
           | Inr (host, portStr) \<Rightarrow>
               let ip = ParseIP host in
               if ip = [] then None
               else (case ParseUint 16 portStr of
                       (_, Some _) \<Rightarrow> None
                     | (n, None) \<Rightarrow> Some (ip, of_nat n))))"

definition v1_line :: "net_addr \<Rightarrow> net_addr \<Rightarrow> string" where
  "v1_line src dst =
     (case (parseIPPort src, parseIPPort dst) of
        (Some (srcIP, srcPort), Some (dstIP, dstPort)) \<Rightarrow>
          (let src4 = To4 srcIP; dst4 = To4 dstIP;
               ports = '' '' @ itoa (unat srcPort) @ '' '' @ itoa (unat dstPort) @ [chr 13, chr 10] in
           if src4 \<noteq> [] \<and> dst4 \<noteq> [] then
             ''PROXY TCP4 '' @ IP_String src4 @ '' '' @ IP_String dst4 @ ports
           else if src4 = [] \<and> dst4 = [] then
             ''PROXY TCP6 '' @ IP_String srcIP @ '' '' @ IP_String dstIP @ ports
           else ''PROXY UNKNOWN'' @ [chr 13, chr 10])
      | _ \<Rightarrow> ''PROXY UNKNOWN'' @ [chr 13, chr 10])"

definition WriteProxyHeaderV1 :: "sink \<Rightarrow> net_addr \<Rightarrow> net_addr \<Rightarrow> go_error option \<times> sink" where
  "WriteProxyHeaderV1 w src dst = sink_write w (bytes_of (v1_line src dst))"

definition v2_unknown :: "byte list" where
  "v2_unknown = v2Signature @ [0x20, 0x00] @ be_enc 2 0"

definition v2_bytes :: "net_addr \<Rightarrow> net_addr \<Rightarrow> byte list" where
  "v2_bytes src dst =
     (case (parseIPPort src, parseIPPort dst) of
        (Some (srcIP, srcPort), Some (dstIP, dstPort)) \<Rightarrow>
          (let src4 = To4 srcIP; dst4 = To4 dstIP in
           if src4 \<noteq> [] \<and> dst4 \<noteq> [] then
             v2Signature @ [0x21, 0x11] @ be_enc 2 12 @ src4 @ dst4 @ put_port srcPort @ put_port dstPort
           else let src6 = To16 srcIP; dst6 = To16 dstIP in
             if src6 = [] \<or> dst6 = [] then v2_unknown
             else v2Signature @ [0x21, 0x21] @ be_enc 2 36 @ src6 @ dst6 @ put_port srcPort @ put_port dstPort)
      | _ \<Rightarrow> v2_unknown)"

definition WriteProxyHeaderV2 :: "sink \<Rightarrow> net_addr \<Rightarrow> net_addr \<Rightarrow> go_error option \<times> sink" where
  "WriteProxyHeaderV2 w src dst = sink_write w (v2_bytes src dst)"

subsection \<open>A reader of the binary format\<close>

text \<open>The receiver's view, from the format's specification: signature, version and command, family,
  length, then for a PROXY command the two addresses and ports; the bytes after the header are
  the connection's data.\<close>

datatype v2_header = Local | Proxied IP IP port port

definition read_v2 :: "byte list \<Rightarrow> (v2_header \<times> byte list) option" where
  "read_v2 bs =
     (if length bs < 16 \<or> take 12 bs \<noteq> v2Signature then None
      else let n = be_dec (take 2 (drop 14 bs)); body = take n (drop 16 bs); rest = drop (16 + n) bs in
        if length bs < 16 + n then None
        else if bs ! 12 = 0x20 then Some (Local, rest)
        else if bs ! 12 \<noteq> 0x21 then None
        else let k = (if bs ! 13 = 0x11 then 4 else if bs ! 13 = 0x21 then 16 else 0) in
          if k = 0 \<or> n < 2 * k + 4 then None
          else Some (Proxied (take k body) (take k (drop k body))
            (get_port (take 2 (drop (2 * k) body))) (get_port (take 2 (drop (2 * k + 2) body))), rest))"

lemma length_v2Signature [simp]: "length v2Signature = 12"
  by (simp add: v2Signature_def)

lemma split_header:
  assumes "length sig = 12" "length ln = 2"
  shows "take 12 (sig @ [v, f] @ ln @ body) = sig" "(sig @ [v, f] @ ln @ body) ! 12 = v"
    "(sig @ [v, f] @ ln @ body) ! 13 = f" "take 2 (drop 14 (sig @ [v, f] @ ln @ body)) = ln"
    "drop 16 (sig @ [v, f] @ ln @ body) = body"
proof -
  have e: "sig @ [v, f] @ ln @ body = (sig @ [v, f]) @ ln @ body" "(sig @ [v, f]) @ ln @ body = (sig @ [v, f] @ ln) @ body"
    by simp_all
  show "take 12 (sig @ [v, f] @ ln @ body) = sig" using assms(1) by simp
  show "(sig @ [v, f] @ ln @ body) ! 12 = v"
    using nth_append_length [of sig v "f # ln @ body"] assms(1) by simp
  show "(sig @ [v, f] @ ln @ body) ! 13 = f"
    using nth_append_length [of "sig @ [v]" f "ln @ body"] assms(1) by simp
  have "drop 14 ((sig @ [v, f]) @ ln @ body) = ln @ body"
    using assms(1) append_eq_conv_conj [of "sig @ [v, f]" "ln @ body"] by simp
  then show "take 2 (drop 14 (sig @ [v, f] @ ln @ body)) = ln" unfolding e(1) using assms(2) by simp
  show "drop 16 (sig @ [v, f] @ ln @ body) = body"
    unfolding e using assms append_eq_conv_conj [of "sig @ [v, f] @ ln" body] by simp
qed

lemma read_v2_proxied:
  assumes "length a = k" "length b = k" "k = 4 \<and> f = 0x11 \<or> k = 16 \<and> f = 0x21"
  shows "read_v2 (v2Signature @ [0x21, f] @ be_enc 2 (2 * k + 4) @ a @ b @ put_port p @ put_port q @ rest) =
    Some (Proxied a b p q, rest)"
proof -
  let ?body = "a @ b @ put_port p @ put_port q @ rest"
  have "2 * k + 4 < 65536" using assms(3) by auto
  then have d: "be_dec (be_enc 2 (2 * k + 4)) = 2 * k + 4" by (simp add: be_dec_be_enc)
  let ?x = "a @ b @ put_port p @ put_port q"
  have xl: "length ?x = 2 * k + 4" using assms(1,2) by simp
  have tb: "take (2 * k + 4) ?body = ?x" "drop (2 * k + 4) ?body = rest"
    using append_eq_conv_conj [of ?x rest ?body] xl by simp_all
  have t: "take k ?x = a" "take k (drop k ?x) = b" using assms(1,2) by simp_all
  have dd: "drop (2 * k) ?x = put_port p @ put_port q"
    using append_eq_conv_conj [of "a @ b" "put_port p @ put_port q" ?x] assms(1,2)
    by (simp add: mult_2)
  have e: "drop (2 * k + 2) ?x = drop 2 (drop (2 * k) ?x)" by (simp only: drop_drop add.commute)
  have t2: "take 2 (drop (2 * k) ?x) = put_port p" "take 2 (drop (2 * k + 2) ?x) = put_port q"
    unfolding e dd by simp_all
  define m X where "m = 2 * k + 4"
    and "X = v2Signature @ [0x21, f] @ be_enc 2 m @ ?body"
  have s: "take 12 X = v2Signature" "X ! 12 = 0x21" "X ! 13 = f" "take 2 (drop 14 X) = be_enc 2 m"
    "drop 16 X = ?body"
    unfolding X_def by (rule split_header; simp)+
  have "drop (16 + m) X = drop m (drop 16 X)" by (simp only: drop_drop add.commute)
  then have "drop (16 + m) X = rest" using s(5) tb(2) by (simp only: m_def)
  moreover have "16 + m \<le> length X" using xl by (simp add: X_def m_def)
  moreover have "take m (drop 16 X) = ?x" using s(5) tb(1) by (simp only: m_def)
  moreover have "be_dec (be_enc 2 m) = m" using d by (simp only: m_def)
  moreover have "2 * k + 4 \<le> m" by (simp add: m_def)
  ultimately have "read_v2 X = Some (Proxied a b p q, rest)"
    using assms(3) s(1-4) t t2 get_put_port unfolding read_v2_def Let_def by (elim disjE conjE) simp_all
  then show ?thesis by (simp only: X_def m_def)
qed

lemma read_v2_unknown: "read_v2 (v2_unknown @ rest) = Some (Local, rest)"
proof -
  define X where "X = v2_unknown @ rest"
  have X: "X = v2Signature @ [0x20, 0x00] @ be_enc 2 0 @ rest" by (simp add: X_def v2_unknown_def)
  have s: "take 12 X = v2Signature" "X ! 12 = 0x20" "take 2 (drop 14 X) = be_enc 2 0" "drop 16 X = rest"
    unfolding X by (rule split_header; simp)+
  moreover have "16 \<le> length X" by (simp add: X)
  moreover have "be_dec (be_enc 2 0) = 0" by (simp add: be_dec_be_enc)
  ultimately have "read_v2 X = Some (Local, rest)" unfolding read_v2_def Let_def by simp
  then show ?thesis by (simp only: X_def)
qed

lemma To4_length: "To4 ip \<noteq> [] \<Longrightarrow> length (To4 ip) = 4"
  by (simp add: To4_def split: if_splits)

lemma To16_length: "To16 ip \<noteq> [] \<Longrightarrow> length (To16 ip) = 16"
  by (simp add: To16_def v4InV6Prefix_def split: if_splits)

text \<open>C23. The binary PROXY header is well formed and faithful: for any two addresses, a reader of the
  format finds the two IP addresses and ports that the code extracted (both as IPv4 if both have
  that form, else both as 16-byte addresses), or a LOCAL header if one of them has none, and the
  data of the connection starts right after it.\<close>

theorem proxy_v2_roundtrip:
  "read_v2 (v2_bytes src dst @ rest) =
     Some (case (parseIPPort src, parseIPPort dst) of
         (Some (s, sp), Some (d, dp)) \<Rightarrow>
           if To4 s \<noteq> [] \<and> To4 d \<noteq> [] then Proxied (To4 s) (To4 d) sp dp
           else if To16 s \<noteq> [] \<and> To16 d \<noteq> [] then Proxied (To16 s) (To16 d) sp dp
           else Local
       | _ \<Rightarrow> Local, rest)"
proof (cases "\<exists>s sp d dp. parseIPPort src = Some (s, sp) \<and> parseIPPort dst = Some (d, dp)")
  case True
  then obtain s sp d dp where p: "parseIPPort src = Some (s, sp)" "parseIPPort dst = Some (d, dp)" by blast
  consider (v4) "To4 s \<noteq> []" "To4 d \<noteq> []"
    | (v6) "\<not> (To4 s \<noteq> [] \<and> To4 d \<noteq> [])" "To16 s \<noteq> []" "To16 d \<noteq> []"
    | (no) "\<not> (To4 s \<noteq> [] \<and> To4 d \<noteq> [])" "To16 s = [] \<or> To16 d = []" by blast
  then show ?thesis
  proof cases
    case v4
    then show ?thesis
      using p read_v2_proxied [of "To4 s" 4 "To4 d" "0x11" sp dp rest]
      by (simp add: v2_bytes_def Let_def To4_length)
  next
    case v6
    then show ?thesis
      using p read_v2_proxied [of "To16 s" 16 "To16 d" "0x21" sp dp rest]
      by (auto simp: v2_bytes_def Let_def To16_length)
  next
    case no
    then show ?thesis using p by (auto simp: v2_bytes_def Let_def read_v2_unknown)
  qed
next
  case False
  then have "parseIPPort src = None \<or> parseIPPort dst = None" by (auto simp: not_Some_eq [symmetric])
  then have "v2_bytes src dst = v2_unknown"
    by (auto simp: v2_bytes_def split: option.splits)
  moreover have "(case (parseIPPort src, parseIPPort dst) of
         (Some (s, sp), Some (d, dp)) \<Rightarrow>
           if To4 s \<noteq> [] \<and> To4 d \<noteq> [] then Proxied (To4 s) (To4 d) sp dp
           else if To16 s \<noteq> [] \<and> To16 d \<noteq> [] then Proxied (To16 s) (To16 d) sp dp
           else Local
       | _ \<Rightarrow> Local) = Local"
    using \<open>parseIPPort src = None \<or> parseIPPort dst = None\<close> by (auto split: option.splits)
  ultimately show ?thesis by (simp add: read_v2_unknown)
qed

end
