(* ===== verification/Orig_Dst.thy ===== *)
theory Orig_Dst
  imports Protocol
begin

text \<open>
  Original destinations of redirected traffic: the control messages of a UDP socket
  (\<^verbatim>\<open>internal/socket/cmsg.go\<close>) and the socket option of a TCP connection
  (\<^verbatim>\<open>internal/socket/tproxy_linux.go\<close>, with the system call's results as arguments). The lemmas
  show that an IPv4 destination is found behind any other control messages, and that an IPv6
  destination under the kernel's message type is not.
\<close>

definition cmsgIpOrigDstAddr :: int where "cmsgIpOrigDstAddr = 20"
definition cmsgIpv6OrigDstAddr :: int where "cmsgIpv6OrigDstAddr = 80"
definition protoIP :: int where "protoIP = 0"
definition protoIPv6 :: int where "protoIPv6 = 41"

text \<open>The option number with which the code asks for IPv6 destinations, which is also the type the
  kernel gives their control messages.\<close>

definition ipv6RecvOrigDstAddr :: int where "ipv6RecvOrigDstAddr = 74"

definition int32_at :: "nat \<Rightarrow> byte list \<Rightarrow> int" where
  "int32_at i bs = sint (of_nat (le_dec (take 4 (drop i bs))) :: u32)"

definition net_IPv4 :: "byte list \<Rightarrow> IP" where
  "net_IPv4 bs = v4InV6Prefix @ bs"

text \<open>The loop over the control messages. The length field is an unsigned 64-bit number that was checked
  against the length of the buffer, so rounding it up does not wrap around.\<close>

function ParseOrigDstAddr :: "byte list \<Rightarrow> go_error + string \<times> port" where
  "ParseOrigDstAddr oob =
     (if length oob < 16 then Inl (Errorf ''original destination address control message not found'')
      else let cmsgLen = le_dec (take 8 oob) in
        if cmsgLen < 16 \<or> length oob < cmsgLen
        then Inl (Errorf ''original destination address control message not found'')
        else let level = int32_at 8 oob; typ = int32_at 12 oob; data = drop 16 (take cmsgLen oob) in
          if level = protoIP \<and> typ = cmsgIpOrigDstAddr \<and> 8 \<le> length data
          then Inr (IP_String (net_IPv4 (take 4 (drop 4 data))), get_port (take 2 (drop 2 data)))
          else if level = protoIPv6 \<and> typ = cmsgIpv6OrigDstAddr \<and> 24 \<le> length data
          then Inr (IP_String (take 16 (drop 8 data)), get_port (take 2 (drop 2 data)))
          else let nxt = (cmsgLen + 7) div 8 * 8 in
            if length oob < nxt
            then Inl (Errorf ''original destination address control message not found'')
            else ParseOrigDstAddr (drop nxt oob))"
  by pat_completeness auto
termination
  by (relation "measure length") auto

declare ParseOrigDstAddr.simps [simp del]

subsection \<open>Socket option\<close>

text \<open>\<^verbatim>\<open>fmt.Sscanf\<close> with \<^verbatim>\<open>%d\<close> into a 16-bit variable: the leading digits; on failure or overflow the
  variable keeps its zero.\<close>

definition scan_port :: "string \<Rightarrow> port" where
  "scan_port s = (case ParseUint 64 (takeWhile is_digit s) of
      (n, None) \<Rightarrow> if n < 65536 then of_nat n else 0 | _ \<Rightarrow> 0)"

definition addrToHostPort :: "string option \<Rightarrow> go_error + string \<times> port" where
  "addrToHostPort a =
     (case a of
        None \<Rightarrow> Inl (Errorf ''nil address'')
      | Some s \<Rightarrow> (case SplitHostPort s of Inl e \<Rightarrow> Inl e | Inr (h, p) \<Rightarrow> Inr (h, scan_port p)))"

text \<open>\<open>opt4\<close>, \<open>opt6\<close>: the 16 and 28 byte answers of \<^verbatim>\<open>getsockopt\<close> with their lengths, \<open>None\<close> on error;
  \<open>isTCP\<close>: a TCP connection with a usable descriptor.\<close>

definition sockopt_dst ::
  "(byte list \<times> nat) option \<Rightarrow> (byte list \<times> nat) option \<Rightarrow> (IP \<times> port) option" where
  "sockopt_dst opt4 opt6 =
     (case opt4 of
        Some (a, n) \<Rightarrow>
          if 8 \<le> n then Some (net_IPv4 (take 4 (drop 4 a)), get_port (take 2 (drop 2 a)))
          else (case opt6 of
              Some (b, k) \<Rightarrow> if 24 \<le> k then Some (take 16 (drop 8 b), get_port (take 2 (drop 2 b))) else None
            | None \<Rightarrow> None)
      | None \<Rightarrow> (case opt6 of
              Some (b, k) \<Rightarrow> if 24 \<le> k then Some (take 16 (drop 8 b), get_port (take 2 (drop 2 b))) else None
            | None \<Rightarrow> None))"

definition GetOriginalDst ::
  "bool \<Rightarrow> (byte list \<times> nat) option \<Rightarrow> (byte list \<times> nat) option \<Rightarrow> string option \<Rightarrow> go_error + string \<times> port" where
  "GetOriginalDst isTCP opt4 opt6 localAddr =
     (if \<not> isTCP then addrToHostPort localAddr
      else (case sockopt_dst opt4 opt6 of
          Some (ip, p) \<Rightarrow> if p \<noteq> 0 then Inr (IP_String ip, p) else addrToHostPort localAddr
        | None \<Rightarrow> addrToHostPort localAddr))"

subsection \<open>Control messages\<close>

text \<open>A control message as the kernel lays it out: header, data, padding to eight bytes.\<close>

definition padding :: "nat \<Rightarrow> byte list" where
  "padding n = replicate ((n + 7) div 8 * 8 - n) 0"

definition cmsg :: "nat \<Rightarrow> nat \<Rightarrow> byte list \<Rightarrow> byte list" where
  "cmsg level typ data = le_enc 8 (16 + length data) @ le_enc 4 level @ le_enc 4 typ @ data @
     padding (16 + length data)"

definition sockaddr_in :: "byte list \<Rightarrow> port \<Rightarrow> byte list" where
  "sockaddr_in ip p = [2, 0] @ put_port p @ ip @ replicate 8 0"

definition sockaddr_in6 :: "byte list \<Rightarrow> port \<Rightarrow> byte list" where
  "sockaddr_in6 ip p = [10, 0] @ put_port p @ replicate 4 0 @ ip @ replicate 4 0"

lemma length_cmsg: "length (cmsg l t d) = (16 + length d + 7) div 8 * 8"
proof -
  have "16 + length d \<le> (16 + length d + 7) div 8 * 8" by presburger
  then show ?thesis by (simp add: cmsg_def padding_def)
qed

lemma int32_at_le_enc:
  assumes "length pre = i" "n < 2 ^ 31"
  shows "int32_at i (pre @ le_enc 4 n @ post) = int n"
proof -
  have "take 4 (drop i (pre @ le_enc 4 n @ post)) = le_enc 4 n" using assms(1) by simp
  then have "int32_at i (pre @ le_enc 4 n @ post) = sint (of_nat n :: u32)"
    using assms(2) by (simp add: int32_at_def codec_simps)
  also have "\<dots> = int n"
    using assms(2) by (simp add: signed_of_nat signed_take_bit_int_eq_self)
  finally show ?thesis .
qed

text \<open>What the loop sees of a message at the front of the buffer.\<close>

lemma cmsg_fields:
  fixes rest :: "byte list"
  assumes "16 + length d < 2 ^ 64" "l < 2 ^ 31" "t < 2 ^ 31"
  defines "m \<equiv> cmsg l t d @ rest"
  shows "le_dec (take 8 m) = 16 + length d" "int32_at 8 m = int l" "int32_at 12 m = int t"
    "drop 16 (take (16 + length d) m) = d" "drop ((16 + length d + 7) div 8 * 8) m = rest"
proof -
  let ?h = "le_enc 8 (16 + length d)" and ?p = "padding (16 + length d)"
  have m: "m = ?h @ le_enc 4 l @ le_enc 4 t @ d @ ?p @ rest" by (simp add: m_def cmsg_def)
  have "(256 :: nat) ^ 8 = 2 ^ 64" by simp
  with assms(1) show "le_dec (take 8 m) = 16 + length d" by (simp add: m codec_simps)
  show "int32_at 8 m = int l" unfolding m by (rule int32_at_le_enc) (use assms(2) in simp_all)
  have "m = (?h @ le_enc 4 l) @ le_enc 4 t @ d @ ?p @ rest" by (simp add: m)
  then show "int32_at 12 m = int t" using int32_at_le_enc [of "?h @ le_enc 4 l" 12 t] assms(3) by simp
  show "drop 16 (take (16 + length d) m) = d" by (simp add: m)
  show "drop ((16 + length d + 7) div 8 * 8) m = rest"
    unfolding m_def length_cmsg [symmetric, of d l t] by simp
qed

lemma ParseOrigDstAddr_skip:
  assumes "16 + length d < 2 ^ 64" "l < 2 ^ 31" "t < 2 ^ 31"
    and "\<not> (int l = protoIP \<and> int t = cmsgIpOrigDstAddr)"
    and "\<not> (int l = protoIPv6 \<and> int t = cmsgIpv6OrigDstAddr)"
  shows "ParseOrigDstAddr (cmsg l t d @ rest) = ParseOrigDstAddr rest"
proof -
  note f = cmsg_fields [OF assms(1-3), of rest]
  have len: "length (cmsg l t d @ rest) = (16 + length d + 7) div 8 * 8 + length rest"
    by (simp add: length_cmsg)
  have "16 + length d \<le> (16 + length d + 7) div 8 * 8" by presburger
  with len have "16 \<le> length (cmsg l t d @ rest)" "16 + length d \<le> length (cmsg l t d @ rest)"
    "(16 + length d + 7) div 8 * 8 \<le> length (cmsg l t d @ rest)" by linarith+
  moreover define m where "m = cmsg l t d @ rest"
  ultimately have "ParseOrigDstAddr m = ParseOrigDstAddr rest"
    using f assms(4,5) unfolding m_def [symmetric]
    by (subst ParseOrigDstAddr.simps) (auto simp: Let_def)
  then show ?thesis by (simp only: m_def)
qed

lemma ParseOrigDstAddr_here4:
  assumes "length ip = 4"
  shows "ParseOrigDstAddr (cmsg 0 20 (sockaddr_in ip p) @ rest) = Inr (dotted ip, p)"
proof -
  let ?d = "sockaddr_in ip p"
  have l: "length ?d = 16" using assms by (simp add: sockaddr_in_def)
  note f = cmsg_fields [of ?d 0 20 rest]
  have "length (cmsg 0 20 ?d @ rest) = 32 + length rest" using l by (simp add: length_cmsg)
  moreover have "take 4 (drop 4 ?d) = ip" "take 2 (drop 2 ?d) = put_port p"
    using assms by (simp_all add: sockaddr_in_def)
  moreover have "IP_String (net_IPv4 ip) = dotted ip"
  proof -
    have "To4 (v4InV6Prefix @ ip) = ip" "length (v4InV6Prefix @ ip) = 16"
      using assms by (simp_all add: v4InV6Prefix_def To4_def)
    moreover have "ip \<noteq> []" using assms by auto
    ultimately show ?thesis by (simp add: IP_String_def net_IPv4_def)
  qed
  moreover define m where "m = cmsg 0 20 ?d @ rest"
  ultimately have "ParseOrigDstAddr m = Inr (dotted ip, p)"
    using f l unfolding m_def [symmetric]
    by (subst ParseOrigDstAddr.simps) (simp add: Let_def protoIP_def cmsgIpOrigDstAddr_def)
  then show ?thesis by (simp only: m_def)
qed

text \<open>C25. An IPv4 original destination is found: whatever control messages of other kinds precede it and
  whatever follows, the parser returns the address and port the kernel stored.\<close>

theorem orig_dst_v4_found:
  assumes "length ip = 4"
    and "\<forall>(l, t, d) \<in> set others. l < 2 ^ 31 \<and> t < 2 ^ 31 \<and> 16 + length d < 2 ^ 64 \<and>
      (int l, int t) \<notin> {(protoIP, cmsgIpOrigDstAddr), (protoIPv6, cmsgIpv6OrigDstAddr)}"
  shows "ParseOrigDstAddr (concat (map (\<lambda>(l, t, d). cmsg l t d) others) @
    cmsg 0 20 (sockaddr_in ip p) @ rest) = Inr (dotted ip, p)"
  using assms(2)
proof (induction others)
  case Nil
  show ?case using ParseOrigDstAddr_here4 [OF assms(1)] by simp
next
  case (Cons m others)
  obtain l t d where m: "m = (l, t, d)" by (cases m)
  have "ParseOrigDstAddr (cmsg l t d @ concat (map (\<lambda>(l, t, d). cmsg l t d) others) @
      cmsg 0 20 (sockaddr_in ip p) @ rest) = ParseOrigDstAddr (concat (map (\<lambda>(l, t, d). cmsg l t d) others) @
      cmsg 0 20 (sockaddr_in ip p) @ rest)"
    by (rule ParseOrigDstAddr_skip) (use Cons.prems m in auto)
  also have "\<dots> = Inr (dotted ip, p)" using Cons by simp
  finally show ?case by (simp add: m)
qed

theorem orig_dst_v4_found_witness:
  "ParseOrigDstAddr (concat (map (\<lambda>(l, t, d). cmsg l t d) [(1, 2, [7, 7, 7])]) @
    cmsg 0 20 (sockaddr_in [198, 51, 100, 42] 8080) @ []) = Inr (dotted [198, 51, 100, 42], 8080)"
  by (rule orig_dst_v4_found) (simp_all add: protoIP_def protoIPv6_def)

text \<open>An IPv6 original destination is never found under the type for which the code itself
  subscribes (74): the parser looks for type 80 and reports that there is no such message.\<close>

theorem orig_dst_v6_missed:
  assumes "length ip = 16"
  shows "ParseOrigDstAddr (cmsg (nat protoIPv6) (nat ipv6RecvOrigDstAddr) (sockaddr_in6 ip p)) =
    Inl (Errorf ''original destination address control message not found'')"
proof -
  have "ParseOrigDstAddr (cmsg (nat protoIPv6) (nat ipv6RecvOrigDstAddr) (sockaddr_in6 ip p) @ []) =
      ParseOrigDstAddr []"
    by (rule ParseOrigDstAddr_skip)
      (use assms in \<open>simp_all add: sockaddr_in6_def protoIPv6_def protoIP_def ipv6RecvOrigDstAddr_def
        cmsgIpv6OrigDstAddr_def\<close>)
  also have "\<dots> = Inl (Errorf ''original destination address control message not found'')"
    by (subst ParseOrigDstAddr.simps) simp
  finally show ?thesis by simp
qed

theorem orig_dst_v6_missed_witness:
  "ParseOrigDstAddr (cmsg (nat protoIPv6) (nat ipv6RecvOrigDstAddr) (sockaddr_in6 (replicate 15 0 @ [1]) 53)) =
    Inl (Errorf ''original destination address control message not found'')"
  by (rule orig_dst_v6_missed) simp

end
