(* ===== verification/Reverse_Manager.thy ===== *)
theory Reverse_Manager
  imports Protocol
begin

text \<open>
  The reverse tunnel manager of \<^verbatim>\<open>pkg/server/manager.go\<close>: listeners shared by address, the bounded queue
  of waiting client connections of each listener, the handlers of incoming connections that take
  clients off the queue, the reaper of idle listeners and the shutdown.

  Listeners and waiting connections are objects with identity; they live in two heaps indexed by
  numbers. A channel that is only ever closed is a flag, and so is a \<^verbatim>\<open>sync.Once\<close> that guards its
  closing. Each critical section is one operation on the manager's state; a loop that waits on
  the condition variable is the operation of one pass, which says whether the loop ends. The
  goroutines (clients, accept loops, handlers, the reaper's pending closes) are program counters,
  and \<open>mgr_step\<close> interleaves their critical sections in every order.
\<close>

subsection \<open>State\<close>

datatype transport = WsConn | GorillaConn | H2Conn

record waitingConn =
  transport :: transport
  acquired :: bool
  isDone :: bool
  connClosed :: bool

record tunnelListener =
  addr :: string
  isUnix :: bool
  protocol :: LocalProtocol
  waiting :: "nat list"
  waitCap :: nat
  quit :: bool
  lastUsed :: int
  active :: int
  lnClosed :: bool

record manager =
  listeners :: "(string \<times> nat) list"
  tls :: "nat \<Rightarrow> tunnelListener"
  waits :: "nat \<Rightarrow> waitingConn"
  nextTl :: nat
  nextWait :: nat
  idleTimeout :: int

definition upd_tl :: "nat \<Rightarrow> (tunnelListener \<Rightarrow> tunnelListener) \<Rightarrow> manager \<Rightarrow> manager" where
  "upd_tl t f m = m\<lparr>tls := (tls m)(t := f (tls m t))\<rparr>"

definition upd_wait :: "nat \<Rightarrow> (waitingConn \<Rightarrow> waitingConn) \<Rightarrow> manager \<Rightarrow> manager" where
  "upd_wait w f m = m\<lparr>waits := (waits m)(w := f (waits m w))\<rparr>"

subsection \<open>Operations\<close>

definition finish :: "nat \<Rightarrow> bool \<Rightarrow> manager \<Rightarrow> manager" where
  "finish w closeConn m =
     (if isDone (waits m w) then m
      else upd_wait w (\<lambda>x. x\<lparr>connClosed := connClosed x \<or> closeConn, isDone := True\<rparr>) m)"

definition markAcquired :: "nat \<Rightarrow> manager \<Rightarrow> manager" where
  "markAcquired w m = upd_wait w (\<lambda>x. x\<lparr>acquired := True\<rparr>) m"

definition isAcquired :: "nat \<Rightarrow> manager \<Rightarrow> bool" where
  "isAcquired w m = acquired (waits m w)"

text \<open>The test that the listener is still the one in the table.\<close>

definition current :: "manager \<Rightarrow> nat \<Rightarrow> bool" where
  "current m t \<longleftrightarrow> map_of (listeners m) (addr (tls m t)) = Some t"

definition touchListener :: "int \<Rightarrow> nat \<Rightarrow> manager \<Rightarrow> manager" where
  "touchListener now t m = (if current m t then upd_tl t (\<lambda>l. l\<lparr>lastUsed := now\<rparr>) m else m)"

definition updateActivePipes :: "int \<Rightarrow> nat \<Rightarrow> int \<Rightarrow> manager \<Rightarrow> manager" where
  "updateActivePipes now t delta m =
     (if current m t then upd_tl t (\<lambda>l. l\<lparr>active := active l + delta, lastUsed := now\<rparr>) m else m)"

definition beginIncoming :: "int \<Rightarrow> nat \<Rightarrow> manager \<Rightarrow> manager" where
  "beginIncoming now t m =
     (if current m t then upd_tl t (\<lambda>l. l\<lparr>active := active l + 1, lastUsed := now\<rparr>) m else m)"

definition stale :: "int \<Rightarrow> manager \<Rightarrow> nat \<Rightarrow> bool" where
  "stale now m t \<longleftrightarrow> \<not> (active (tls m t) > 0 \<or> now - lastUsed (tls m t) < idleTimeout m)"

text \<open>The critical section of \<^verbatim>\<open>reapIdleListenersOnce\<close>: it takes the stale listeners off the table and
  returns them; they are closed afterwards, one by one.\<close>

definition reapIdleListenersOnce :: "int \<Rightarrow> manager \<Rightarrow> nat list \<times> manager" where
  "reapIdleListenersOnce now m =
     (map snd (filter (\<lambda>(a, t). stale now m t) (listeners m)),
      m\<lparr>listeners := filter (\<lambda>(a, t). \<not> stale now m t) (listeners m)\<rparr>)"

definition closeTunnelListener :: "nat \<Rightarrow> bool \<Rightarrow> manager \<Rightarrow> manager" where
  "closeTunnelListener t closeListener m =
     upd_tl t (\<lambda>l. l\<lparr>quit := True, lnClosed := lnClosed l \<or> closeListener\<rparr>) m"

text \<open>The critical section of \<^verbatim>\<open>Close\<close>: it empties the table.\<close>

definition CloseManager :: "manager \<Rightarrow> nat list \<times> manager" where
  "CloseManager m = (map snd (listeners m), m\<lparr>listeners := []\<rparr>)"

definition deleteListener :: "nat \<Rightarrow> manager \<Rightarrow> manager" where
  "deleteListener t m =
     (if current m t then m\<lparr>listeners := filter (\<lambda>(a, _). a \<noteq> addr (tls m t)) (listeners m)\<rparr> else m)"

definition purgeDoneWaiters :: "nat \<Rightarrow> manager \<Rightarrow> manager" where
  "purgeDoneWaiters t m =
     upd_tl t (\<lambda>l. l\<lparr>waiting := filter (\<lambda>w. \<not> isDone (waits m w)) (waiting l)\<rparr>) m"

text \<open>One pass of the loop of \<^verbatim>\<open>enqueueWaitingConn\<close>; \<open>None\<close>: wait for a broadcast.\<close>

definition enqueue_pass :: "nat \<Rightarrow> nat \<Rightarrow> manager \<Rightarrow> bool option \<times> manager" where
  "enqueue_pass t w m =
     (let m1 = purgeDoneWaiters t m in
      if quit (tls m1 t) then (Some False, m1)
      else if length (waiting (tls m1 t)) < waitCap (tls m1 t)
      then (Some True, upd_tl t (\<lambda>l. l\<lparr>waiting := waiting l @ [w]\<rparr>) m1)
      else (None, m1))"

text \<open>One pass of the loop of \<^verbatim>\<open>acquireWaitingConn\<close>; \<open>late\<close>: the ten seconds are over.\<close>

definition acquire_pass :: "bool \<Rightarrow> nat \<Rightarrow> manager \<Rightarrow> nat option option \<times> manager" where
  "acquire_pass late t m =
     (let m1 = purgeDoneWaiters t m in
      case waiting (tls m1 t) of
        w # ws \<Rightarrow> (Some (Some w), markAcquired w (upd_tl t (\<lambda>l. l\<lparr>waiting := ws\<rparr>) m1))
      | [] \<Rightarrow> if late \<or> quit (tls m1 t) then (Some None, m1) else (None, m1))"

definition bindAddr :: "JwtTunnelConfig \<Rightarrow> string \<times> string \<times> bool" where
  "bindAddr claims =
     (case ReverseUnix (Protocol claims) of
        Some u \<Rightarrow> (''unix'', if Remote claims = [] then rUnixPath u else Remote claims, True)
      | None \<Rightarrow> (if ReverseUdp (Protocol claims) \<noteq> None then ''udp'' else ''tcp'',
                 hostport (Remote claims) (Port claims), False))"

definition new_listener :: "string \<Rightarrow> bool \<Rightarrow> LocalProtocol \<Rightarrow> int \<Rightarrow> tunnelListener" where
  "new_listener a ux p now =
     \<lparr>addr = a, isUnix = ux, protocol = p, waiting = [], waitCap = 10, quit = False,
      lastUsed = now, active = 0, lnClosed = False\<rparr>"

text \<open>\<open>listen\<close> is the operating system's answer to the bind: an error or success.\<close>

definition getOrCreateListener ::
  "(string \<Rightarrow> string \<Rightarrow> go_error option) \<Rightarrow> int \<Rightarrow> JwtTunnelConfig \<Rightarrow> manager \<Rightarrow>
   (go_error + nat) \<times> manager" where
  "getOrCreateListener listen now claims m =
     (case bindAddr claims of (network, a, ux) \<Rightarrow>
      case map_of (listeners m) a of
        Some t \<Rightarrow> (Inr t, upd_tl t (\<lambda>l. l\<lparr>lastUsed := now\<rparr>) m)
      | None \<Rightarrow>
          (case listen network a of
             Some e \<Rightarrow> (Inl e, m)
           | None \<Rightarrow>
               let t = nextTl m in
               (Inr t, m\<lparr>tls := (tls m)(t := new_listener a ux (Protocol claims) now), nextTl := t + 1,
                         listeners := (a, t) # listeners m\<rparr>)))"

definition new_wait :: "transport \<Rightarrow> manager \<Rightarrow> nat \<times> manager" where
  "new_wait k m =
     (nextWait m,
      m\<lparr>waits := (waits m)(nextWait m := \<lparr>transport = k, acquired = False, isDone = False, connClosed = False\<rparr>),
        nextWait := nextWait m + 1\<rparr>)"

subsection \<open>Goroutines\<close>

datatype client_pc = CEnqueue | CTouch | CWait | CTimeout | CTimeoutClose | CPurge | CAfter | CReturned
datatype handler_pc = HStart | HAcquire | HTouch nat | HPipe nat | HUpdate | HDone
datatype listener_pc = LAccepting | LDeleting | LDone

record sys =
  mgr :: manager
  cpc :: "nat \<Rightarrow> client_pc"
  ctl :: "nat \<Rightarrow> nat"
  handlers :: "(nat \<times> handler_pc) list"
  lpc :: "nat \<Rightarrow> listener_pc"
  closing :: "nat list"

definition set_cpc :: "nat \<Rightarrow> client_pc \<Rightarrow> sys \<Rightarrow> sys" where
  "set_cpc w pc s = s\<lparr>cpc := (cpc s)(w := pc)\<rparr>"

definition set_hpc :: "nat \<Rightarrow> handler_pc \<Rightarrow> sys \<Rightarrow> sys" where
  "set_hpc i pc s = s\<lparr>handlers := (handlers s)[i := (fst (handlers s ! i), pc)]\<rparr>"

abbreviation on_mgr :: "(manager \<Rightarrow> manager) \<Rightarrow> sys \<Rightarrow> sys" where
  "on_mgr f s \<equiv> s\<lparr>mgr := f (mgr s)\<rparr>"

text \<open>A new client: \<^verbatim>\<open>HandleClient\<close>, \<^verbatim>\<open>HandleGorillaClient\<close> and \<^verbatim>\<open>HandleClientH2\<close> up to the queue.\<close>

definition client_arrives ::
  "(string \<Rightarrow> string \<Rightarrow> go_error option) \<Rightarrow> int \<Rightarrow> JwtTunnelConfig \<Rightarrow> transport \<Rightarrow> sys \<Rightarrow> sys" where
  "client_arrives listen now claims k s =
     (case getOrCreateListener listen now claims (mgr s) of
        (Inl e, m) \<Rightarrow> s\<lparr>mgr := m\<rparr>
      | (Inr t, m) \<Rightarrow>
          (case new_wait k m of (w, m') \<Rightarrow>
             s\<lparr>mgr := m', cpc := (cpc s)(w := CEnqueue), ctl := (ctl s)(w := t)\<rparr>))"

definition client_enqueues :: "nat \<Rightarrow> sys \<Rightarrow> sys" where
  "client_enqueues w s =
     (case enqueue_pass (ctl s w) w (mgr s) of
        (Some True, m) \<Rightarrow> set_cpc w CTouch (s\<lparr>mgr := m\<rparr>)
      | (Some False, m) \<Rightarrow> set_cpc w CReturned (s\<lparr>mgr := finish w True m\<rparr>)
      | (None, m) \<Rightarrow> s\<lparr>mgr := m\<rparr>)"

definition handler_acquires :: "bool \<Rightarrow> nat \<Rightarrow> sys \<Rightarrow> sys" where
  "handler_acquires late i s =
     (case acquire_pass late (fst (handlers s ! i)) (mgr s) of
        (Some (Some w), m) \<Rightarrow> set_hpc i (HTouch w) (s\<lparr>mgr := m\<rparr>)
      | (Some None, m) \<Rightarrow> set_hpc i HUpdate (s\<lparr>mgr := m\<rparr>)
      | (None, m) \<Rightarrow> s\<lparr>mgr := m\<rparr>)"

abbreviation at_h :: "sys \<Rightarrow> nat \<Rightarrow> handler_pc \<Rightarrow> bool" where
  "at_h s i pc \<equiv> i < length (handlers s) \<and> snd (handlers s ! i) = pc"

abbreviation at_c :: "sys \<Rightarrow> nat \<Rightarrow> client_pc \<Rightarrow> bool" where
  "at_c s w pc \<equiv> w < nextWait (mgr s) \<and> cpc s w = pc"

abbreviation at_l :: "sys \<Rightarrow> nat \<Rightarrow> listener_pc \<Rightarrow> bool" where
  "at_l s t pc \<equiv> t < nextTl (mgr s) \<and> lpc s t = pc"

inductive mgr_step :: "sys \<Rightarrow> sys \<Rightarrow> bool" where
  arrive: "mgr_step s (client_arrives listen now claims k s)"
| enqueue: "at_c s w CEnqueue \<Longrightarrow> mgr_step s (client_enqueues w s)"
| enqueued: "at_c s w CTouch \<Longrightarrow> mgr_step s
    (set_cpc w (if idleTimeout (mgr s) \<le> 0 then CAfter else CWait) (on_mgr (touchListener now (ctl s w)) s))"
| wait_done: "at_c s w CWait \<or> at_c s w CAfter \<Longrightarrow> isDone (waits (mgr s) w) \<Longrightarrow> mgr_step s (set_cpc w CReturned s)"
| wait_quit: "at_c s w CWait \<or> at_c s w CAfter \<Longrightarrow> quit (tls (mgr s) (ctl s w)) \<Longrightarrow>
    mgr_step s (set_cpc w CReturned (on_mgr (finish w True) s))"
| wait_acquired: "at_c s w CWait \<Longrightarrow> acquired (waits (mgr s) w) \<Longrightarrow> mgr_step s (set_cpc w CAfter s)"
| wait_timer: "at_c s w CWait \<Longrightarrow> mgr_step s (set_cpc w CTimeout s)"
| timeout_check: "at_c s w CTimeout \<Longrightarrow>
    mgr_step s (set_cpc w (if isAcquired w (mgr s) then CAfter else CTimeoutClose) s)"
| timeout_close: "at_c s w CTimeoutClose \<Longrightarrow> mgr_step s (set_cpc w CPurge (on_mgr (finish w True) s))"
| timeout_purge: "at_c s w CPurge \<Longrightarrow> mgr_step s (set_cpc w CReturned (on_mgr (purgeDoneWaiters (ctl s w)) s))"
| accept: "at_l s t LAccepting \<Longrightarrow> mgr_step s
    ((on_mgr (beginIncoming now t) s)\<lparr>handlers := handlers s @ [(t, HStart)]\<rparr>)"
| accept_error: "at_l s t LAccepting \<Longrightarrow> mgr_step s
    ((on_mgr (closeTunnelListener t False) s)\<lparr>lpc := (lpc s)(t := LDeleting)\<rparr>)"
| listener_ends: "at_l s t LDeleting \<Longrightarrow> mgr_step s
    ((on_mgr (upd_tl t (\<lambda>l. l\<lparr>lnClosed := True\<rparr>) \<circ> deleteListener t) s)\<lparr>lpc := (lpc s)(t := LDone)\<rparr>)"
| handshake: "at_h s i HStart \<Longrightarrow> mgr_step s (set_hpc i HAcquire s)"
| handshake_fails: "at_h s i HStart \<Longrightarrow> mgr_step s (set_hpc i HUpdate s)"
| acquire: "at_h s i HAcquire \<Longrightarrow> mgr_step s (handler_acquires late i s)"
| acquired_touch: "at_h s i (HTouch w) \<Longrightarrow> mgr_step s
    (set_hpc i (HPipe w) (on_mgr (touchListener now (fst (handlers s ! i))) s))"
| pipe_ends: "at_h s i (HPipe w) \<Longrightarrow> mgr_step s (set_hpc i HUpdate (on_mgr (finish w False) s))"
| handler_ends: "at_h s i HUpdate \<Longrightarrow> mgr_step s
    (set_hpc i HDone (on_mgr (updateActivePipes now (fst (handlers s ! i)) (-1)) s))"
| reap: "0 < idleTimeout (mgr s) \<Longrightarrow> mgr_step s
    (s\<lparr>mgr := snd (reapIdleListenersOnce now (mgr s)),
       closing := closing s @ fst (reapIdleListenersOnce now (mgr s))\<rparr>)"
| shutdown: "mgr_step s
    (s\<lparr>mgr := snd (CloseManager (mgr s)), closing := closing s @ fst (CloseManager (mgr s))\<rparr>)"
| close_next: "closing s = t # ts \<Longrightarrow> mgr_step s ((on_mgr (closeTunnelListener t True) s)\<lparr>closing := ts\<rparr>)"

definition NewReverseTunnelManager :: "int \<Rightarrow> sys" where
  "NewReverseTunnelManager idle =
     \<lparr>mgr = \<lparr>listeners = [], tls = (\<lambda>_. new_listener [] False noProtocol 0),
        waits = (\<lambda>_. \<lparr>transport = WsConn, acquired = False, isDone = False, connClosed = False\<rparr>),
        nextTl = 0, nextWait = 0, idleTimeout = idle\<rparr>,
      cpc = (\<lambda>_. CEnqueue), ctl = (\<lambda>_. 0), handlers = [], lpc = (\<lambda>_. LAccepting), closing = []\<rparr>"

subsection \<open>What each operation changes\<close>

text \<open>The invariants look at the state through these projections.\<close>

definition queues :: "manager \<Rightarrow> nat \<Rightarrow> nat list" where
  "queues m = (\<lambda>t. waiting (tls m t))"
definition caps :: "manager \<Rightarrow> nat \<Rightarrow> nat" where
  "caps m = (\<lambda>t. waitCap (tls m t))"
definition taken :: "manager \<Rightarrow> nat \<Rightarrow> bool" where
  "taken m = (\<lambda>w. acquired (waits m w))"
definition addrs :: "manager \<Rightarrow> nat \<Rightarrow> string" where
  "addrs m = (\<lambda>t. addr (tls m t))"
definition actives :: "manager \<Rightarrow> nat \<Rightarrow> int" where
  "actives m = (\<lambda>t. active (tls m t))"

lemmas view_defs = queues_def caps_def taken_def addrs_def actives_def
lemmas op_defs = upd_tl_def upd_wait_def finish_def markAcquired_def touchListener_def
  updateActivePipes_def beginIncoming_def closeTunnelListener_def purgeDoneWaiters_def
  deleteListener_def reapIdleListenersOnce_def CloseManager_def new_wait_def

named_theorems view_simps \<open>projections of the manager after an operation\<close>

lemma view_finish [view_simps]:
  "queues (finish w b m) = queues m" "caps (finish w b m) = caps m" "taken (finish w b m) = taken m"
  "addrs (finish w b m) = addrs m" "actives (finish w b m) = actives m"
  "listeners (finish w b m) = listeners m" "nextTl (finish w b m) = nextTl m"
  "nextWait (finish w b m) = nextWait m"
  by (auto simp: op_defs view_defs fun_eq_iff)

lemma view_touch [view_simps]:
  "queues (touchListener now t m) = queues m" "caps (touchListener now t m) = caps m"
  "taken (touchListener now t m) = taken m" "addrs (touchListener now t m) = addrs m"
  "actives (touchListener now t m) = actives m" "listeners (touchListener now t m) = listeners m"
  "nextTl (touchListener now t m) = nextTl m" "nextWait (touchListener now t m) = nextWait m"
  by (auto simp: op_defs view_defs fun_eq_iff)

lemma view_close [view_simps]:
  "queues (closeTunnelListener t b m) = queues m" "caps (closeTunnelListener t b m) = caps m"
  "taken (closeTunnelListener t b m) = taken m" "addrs (closeTunnelListener t b m) = addrs m"
  "actives (closeTunnelListener t b m) = actives m" "listeners (closeTunnelListener t b m) = listeners m"
  "nextTl (closeTunnelListener t b m) = nextTl m" "nextWait (closeTunnelListener t b m) = nextWait m"
  by (auto simp: op_defs view_defs fun_eq_iff)

lemma view_lnClosed [view_simps]:
  fixes t :: nat
  defines "f \<equiv> upd_tl t (\<lambda>l. l\<lparr>lnClosed := True\<rparr>)"
  shows "queues (f m) = queues m" "caps (f m) = caps m" "taken (f m) = taken m" "addrs (f m) = addrs m"
    "actives (f m) = actives m" "listeners (f m) = listeners m" "nextTl (f m) = nextTl m"
    "nextWait (f m) = nextWait m"
  by (auto simp: f_def op_defs view_defs fun_eq_iff)

lemma view_lastUsed [view_simps]:
  fixes t :: nat and now
  defines "f \<equiv> upd_tl t (\<lambda>l. l\<lparr>lastUsed := now\<rparr>)"
  shows "queues (f m) = queues m" "caps (f m) = caps m" "taken (f m) = taken m" "addrs (f m) = addrs m"
    "actives (f m) = actives m" "listeners (f m) = listeners m" "nextTl (f m) = nextTl m"
    "nextWait (f m) = nextWait m"
  by (auto simp: f_def op_defs view_defs fun_eq_iff)

lemma view_delete [view_simps]:
  "queues (deleteListener t m) = queues m" "caps (deleteListener t m) = caps m"
  "taken (deleteListener t m) = taken m" "addrs (deleteListener t m) = addrs m"
  "actives (deleteListener t m) = actives m" "nextTl (deleteListener t m) = nextTl m"
  "nextWait (deleteListener t m) = nextWait m"
  by (auto simp: op_defs view_defs)

lemma view_active [view_simps]:
  "queues (updateActivePipes now t d m) = queues m" "caps (updateActivePipes now t d m) = caps m"
  "taken (updateActivePipes now t d m) = taken m" "addrs (updateActivePipes now t d m) = addrs m"
  "actives (updateActivePipes now t d m) =
     (if map_of (listeners m) (addrs m t) = Some t then (actives m)(t := actives m t + d) else actives m)"
  "listeners (updateActivePipes now t d m) = listeners m"
  "nextTl (updateActivePipes now t d m) = nextTl m" "nextWait (updateActivePipes now t d m) = nextWait m"
  by (auto simp: op_defs view_defs current_def fun_eq_iff)

lemma beginIncoming_eq: "beginIncoming now t m = updateActivePipes now t 1 m"
  by (simp add: beginIncoming_def updateActivePipes_def)

lemma view_purge [view_simps]:
  "queues (purgeDoneWaiters t m) = (queues m)(t := filter (\<lambda>w. \<not> isDone (waits m w)) (queues m t))"
  "caps (purgeDoneWaiters t m) = caps m" "taken (purgeDoneWaiters t m) = taken m"
  "addrs (purgeDoneWaiters t m) = addrs m" "actives (purgeDoneWaiters t m) = actives m"
  "listeners (purgeDoneWaiters t m) = listeners m" "nextTl (purgeDoneWaiters t m) = nextTl m"
  "nextWait (purgeDoneWaiters t m) = nextWait m"
  by (auto simp: op_defs view_defs fun_eq_iff)

lemma view_mark [view_simps]:
  "queues (markAcquired w m) = queues m" "caps (markAcquired w m) = caps m"
  "taken (markAcquired w m) = (taken m)(w := True)" "addrs (markAcquired w m) = addrs m"
  "actives (markAcquired w m) = actives m" "listeners (markAcquired w m) = listeners m"
  "nextTl (markAcquired w m) = nextTl m" "nextWait (markAcquired w m) = nextWait m"
  by (auto simp: op_defs view_defs fun_eq_iff)

lemma view_waiting:
  fixes t :: nat and g
  defines "f \<equiv> upd_tl t (\<lambda>l. l\<lparr>waiting := g (waiting l)\<rparr>)"
  shows "queues (f m) = (queues m)(t := g (queues m t))" "caps (f m) = caps m" "taken (f m) = taken m"
    "addrs (f m) = addrs m" "actives (f m) = actives m" "listeners (f m) = listeners m"
    "nextTl (f m) = nextTl m" "nextWait (f m) = nextWait m"
  by (auto simp: f_def op_defs view_defs fun_eq_iff)

lemmas view_append [view_simps] = view_waiting [where g = "\<lambda>q. q @ [w]" for w]
lemmas view_pop [view_simps] = view_waiting [where g = "\<lambda>_. ws" for ws]

lemma view_new_wait [view_simps]:
  "queues (snd (new_wait k m)) = queues m" "caps (snd (new_wait k m)) = caps m"
  "taken (snd (new_wait k m)) = (taken m)(nextWait m := False)" "addrs (snd (new_wait k m)) = addrs m"
  "actives (snd (new_wait k m)) = actives m" "listeners (snd (new_wait k m)) = listeners m"
  "nextTl (snd (new_wait k m)) = nextTl m" "nextWait (snd (new_wait k m)) = Suc (nextWait m)"
  "fst (new_wait k m) = nextWait m"
  by (auto simp: op_defs view_defs fun_eq_iff)

lemma view_table [view_simps]:
  "queues (m\<lparr>listeners := ls\<rparr>) = queues m" "caps (m\<lparr>listeners := ls\<rparr>) = caps m"
  "taken (m\<lparr>listeners := ls\<rparr>) = taken m" "addrs (m\<lparr>listeners := ls\<rparr>) = addrs m"
  "actives (m\<lparr>listeners := ls\<rparr>) = actives m"
  by (simp_all add: view_defs)

subsection \<open>The queue invariant\<close>

fun holds :: "handler_pc \<Rightarrow> nat option" where
  "holds (HTouch w) = Some w"
| "holds (HPipe w) = Some w"
| "holds _ = None"

text \<open>Every queue is bounded by its capacity of ten, has no duplicates and holds only clients of
  its own listener that nobody has taken; a client that is still enqueueing is in no queue and not
  taken; a handler holds a client of its own listener that is marked as taken, and no two handlers
  hold the same client.\<close>

definition queue_ok :: "nat \<Rightarrow> nat \<Rightarrow> (nat \<Rightarrow> nat list) \<Rightarrow> (nat \<Rightarrow> nat) \<Rightarrow> (nat \<Rightarrow> bool) \<Rightarrow>
  (nat \<Rightarrow> client_pc) \<Rightarrow> (nat \<Rightarrow> nat) \<Rightarrow> bool" where
  "queue_ok nT nW q cap tk pc own \<longleftrightarrow>
     (\<forall>t<nT. cap t = 10 \<and> length (q t) \<le> 10 \<and> distinct (q t) \<and>
        (\<forall>w\<in>set (q t). w < nW \<and> own w = t \<and> \<not> tk w \<and> pc w \<noteq> CEnqueue)) \<and>
     (\<forall>w<nW. own w < nT \<and> (pc w = CEnqueue \<longrightarrow> \<not> tk w))"

definition hold_ok :: "nat \<Rightarrow> nat \<Rightarrow> (nat \<Rightarrow> bool) \<Rightarrow> (nat \<Rightarrow> nat) \<Rightarrow> (nat \<times> handler_pc) list \<Rightarrow> bool" where
  "hold_ok nT nW tk own hs \<longleftrightarrow>
     (\<forall>i<length hs. fst (hs ! i) < nT \<and>
        (\<forall>w. holds (snd (hs ! i)) = Some w \<longrightarrow> w < nW \<and> tk w \<and> own w = fst (hs ! i))) \<and>
     (\<forall>i<length hs. \<forall>j<length hs. \<forall>w. holds (snd (hs ! i)) = Some w \<longrightarrow> holds (snd (hs ! j)) = Some w \<longrightarrow> i = j)"

definition queue_inv :: "sys \<Rightarrow> bool" where
  "queue_inv s \<longleftrightarrow>
     queue_ok (nextTl (mgr s)) (nextWait (mgr s)) (queues (mgr s)) (caps (mgr s)) (taken (mgr s)) (cpc s) (ctl s) \<and>
     hold_ok (nextTl (mgr s)) (nextWait (mgr s)) (taken (mgr s)) (ctl s) (handlers s)"

named_theorems queue_intros \<open>steps that keep the queue and hand-over conditions\<close>

lemma queue_ok_filter [queue_intros]:
  "queue_ok nT nW q cap tk pc own \<Longrightarrow> queue_ok nT nW (q(t := filter P (q t))) cap tk pc own"
  unfolding queue_ok_def
  by (auto intro: order.trans [OF length_filter_le])

lemma queue_ok_pc [queue_intros]:
  "queue_ok nT nW q cap tk pc own \<Longrightarrow> p \<noteq> CEnqueue \<Longrightarrow> queue_ok nT nW q cap tk (pc(w := p)) own"
  unfolding queue_ok_def by auto

lemma queue_ok_append:
  "queue_ok nT nW q cap tk pc own \<Longrightarrow> w < nW \<Longrightarrow> pc w = CEnqueue \<Longrightarrow> length (q (own w)) < cap (own w) \<Longrightarrow>
   queue_ok nT nW (q(own w := q (own w) @ [w])) cap tk (pc(w := CTouch)) own"
  unfolding queue_ok_def by auto

lemma queue_okD:
  "queue_ok nT nW q cap tk pc own \<Longrightarrow> t < nT \<Longrightarrow> cap t = 10 \<and> length (q t) \<le> 10 \<and> distinct (q t)"
  unfolding queue_ok_def by blast

lemma queue_ok_memD:
  "queue_ok nT nW q cap tk pc own \<Longrightarrow> t < nT \<Longrightarrow> w \<in> set (q t) \<Longrightarrow>
   w < nW \<and> own w = t \<and> \<not> tk w \<and> pc w \<noteq> CEnqueue"
  unfolding queue_ok_def by blast

lemma queue_ok_pop:
  "queue_ok nT nW q cap tk pc own \<Longrightarrow> t < nT \<Longrightarrow> q t = w # ws \<Longrightarrow>
   queue_ok nT nW (q(t := ws)) cap (tk(w := True)) pc own"
proof -
  assume ok: "queue_ok nT nW q cap tk pc own" and t: "t < nT" "q t = w # ws"
  have w: "own w = t" "pc w \<noteq> CEnqueue" "w \<notin> set ws" "distinct ws" "length ws \<le> 10"
    using queue_okD [OF ok t(1)] queue_ok_memD [OF ok t(1), of w] t(2) by auto
  have other: "w \<notin> set (q u)" if "u < nT" "u \<noteq> t" for u
    using queue_ok_memD [OF ok that(1), of w] that(2) w by auto
  show ?thesis unfolding queue_ok_def
  proof (intro conjI allI impI ballI)
    fix u x assume u: "u < nT" and x: "x \<in> set ((q(t := ws)) u)"
    then have "x \<in> set (q u)" "x \<noteq> w" using t w other by (auto split: if_splits)
    then show "x < nW" "own x = u" "\<not> (tk(w := True)) x" "pc x \<noteq> CEnqueue"
      using queue_ok_memD [OF ok u, of x] by auto
  qed (use ok w in \<open>auto simp: queue_ok_def\<close>)
qed

lemma queue_ok_arrive:
  "queue_ok nT nW q cap tk pc own \<Longrightarrow> t < nT \<Longrightarrow>
   queue_ok nT (Suc nW) q cap (tk(nW := False)) (pc(nW := CEnqueue)) (own(nW := t))"
  unfolding queue_ok_def less_Suc_eq by auto

lemma queue_ok_listener:
  "queue_ok nT nW q cap tk pc own \<Longrightarrow> queue_ok (Suc nT) nW (q(nT := [])) (cap(nT := 10)) tk pc own"
  unfolding queue_ok_def by (auto simp: less_Suc_eq)

lemma hold_ok_pc [queue_intros]:
  "hold_ok nT nW tk own hs \<Longrightarrow> holds p = None \<or> holds p = holds (snd (hs ! i)) \<Longrightarrow>
   hold_ok nT nW tk own (hs[i := (fst (hs ! i), p)])"
  unfolding hold_ok_def by (cases "i < length hs") (fastforce simp: nth_list_update split: if_splits)+

lemma hold_ok_accept [queue_intros]:
  "hold_ok nT nW tk own hs \<Longrightarrow> t < nT \<Longrightarrow> hold_ok nT nW tk own (hs @ [(t, HStart)])"
  unfolding hold_ok_def by (fastforce simp: nth_append less_Suc_eq split: if_splits)

lemma hold_ok_arrive:
  "hold_ok nT nW tk own hs \<Longrightarrow> hold_ok nT (Suc nW) (tk(nW := False)) (own(nW := t)) hs"
  unfolding hold_ok_def by (auto simp: less_Suc_eq)

lemma hold_ok_listener: "hold_ok nT nW tk own hs \<Longrightarrow> hold_ok (Suc nT) nW tk own hs"
  unfolding hold_ok_def by (simp add: less_SucI)

lemma hold_ok_take:
  "hold_ok nT nW tk own hs \<Longrightarrow> i < length hs \<Longrightarrow> w < nW \<Longrightarrow> \<not> tk w \<Longrightarrow> own w = fst (hs ! i) \<Longrightarrow>
   hold_ok nT nW (tk(w := True)) own (hs[i := (fst (hs ! i), HTouch w)])"
  unfolding hold_ok_def by (fastforce simp: nth_list_update split: if_splits)

lemma view_getOrCreate:
  assumes "getOrCreateListener listen now claims m = (r, m')"
  obtains (shared) t where "r = Inr t" "map_of (listeners m) (fst (snd (bindAddr claims))) = Some t"
      "m' = upd_tl t (\<lambda>l. l\<lparr>lastUsed := now\<rparr>) m"
    | (failed) e where "r = Inl e" "m' = m"
    | (created) a where "r = Inr (nextTl m)" "a = fst (snd (bindAddr claims))"
      "map_of (listeners m) a = None" "listeners m' = (a, nextTl m) # listeners m"
      "nextTl m' = Suc (nextTl m)" "nextWait m' = nextWait m" "queues m' = (queues m)(nextTl m := [])"
      "caps m' = (caps m)(nextTl m := 10)" "taken m' = taken m" "addrs m' = (addrs m)(nextTl m := a)"
      "actives m' = (actives m)(nextTl m := 0)"
proof -
  obtain n a u where b: "bindAddr claims = (n, a, u)" by (cases "bindAddr claims")
  show thesis
  proof (cases "map_of (listeners m) a")
    case (Some t)
    then show thesis using assms b by (intro shared [of t]) (simp_all add: getOrCreateListener_def)
  next
    case None
    show thesis
    proof (cases "listen n a")
      case (Some e)
      then show thesis using assms b None by (intro failed [of e]) (simp_all add: getOrCreateListener_def)
    next
      case ok: None
      have "r = Inr (nextTl m)" and "m' = m\<lparr>tls := (tls m)(nextTl m := new_listener a u (Protocol claims) now),
          nextTl := nextTl m + 1, listeners := (a, nextTl m) # listeners m\<rparr>"
        using assms b None ok by (simp_all add: getOrCreateListener_def Let_def)
      then show thesis using b None
        by (intro created [of a]) (simp_all add: view_defs new_listener_def fun_eq_iff)
    qed
  qed
qed

text \<open>The table maps each address to the listener bound to it, and the number of handlers in flight
  of a listener that is in the table is its counter of active pipes.\<close>

definition inflight :: "nat \<Rightarrow> (nat \<times> handler_pc) list \<Rightarrow> int" where
  "inflight t hs = int (length (filter (\<lambda>h. fst h = t \<and> snd h \<noteq> HDone) hs))"

definition table_ok :: "nat \<Rightarrow> (string \<times> nat) list \<Rightarrow> (nat \<Rightarrow> string) \<Rightarrow> bool" where
  "table_ok nT ls ad \<longleftrightarrow> distinct (map fst ls) \<and> (\<forall>(a, t)\<in>set ls. t < nT \<and> ad t = a)"

definition active_ok :: "(string \<times> nat) list \<Rightarrow> (nat \<Rightarrow> int) \<Rightarrow> (nat \<times> handler_pc) list \<Rightarrow> bool" where
  "active_ok ls ac hs \<longleftrightarrow> (\<forall>(a, t)\<in>set ls. ac t = inflight t hs)"

definition table_inv :: "sys \<Rightarrow> bool" where
  "table_inv s \<longleftrightarrow>
     table_ok (nextTl (mgr s)) (listeners (mgr s)) (addrs (mgr s)) \<and>
     active_ok (listeners (mgr s)) (actives (mgr s)) (handlers s)"

lemma inflight_Cons: "inflight t (h # hs) = (if fst h = t \<and> snd h \<noteq> HDone then 1 else 0) + inflight t hs"
  by (simp add: inflight_def)

lemma inflight_update:
  "i < length hs \<Longrightarrow> inflight t (hs[i := (fst (hs ! i), pc)]) = inflight t hs
     - (if fst (hs ! i) = t \<and> snd (hs ! i) \<noteq> HDone then 1 else 0)
     + (if fst (hs ! i) = t \<and> pc \<noteq> HDone then 1 else 0)"
proof (induction hs arbitrary: i)
  case (Cons h hs)
  show ?case
  proof (cases i)
    case (Suc j)
    with Cons show ?thesis by (simp add: inflight_Cons)
  qed (simp add: inflight_Cons)
qed simp

lemma inflight_accept: "inflight t (hs @ [(u, HStart)]) = inflight t hs + (if u = t then 1 else 0)"
  by (simp add: inflight_def)

lemma inflight_fresh: "(\<forall>i<length hs. fst (hs ! i) < nT) \<Longrightarrow> inflight nT hs = 0"
  by (fastforce simp: inflight_def filter_empty_conv in_set_conv_nth)

lemma table_ok_filter: "table_ok nT ls ad \<Longrightarrow> table_ok nT (filter P ls) ad"
  by (auto simp: table_ok_def distinct_map_filter)

lemma active_ok_filter: "active_ok ls ac hs \<Longrightarrow> active_ok (filter P ls) ac hs"
  by (auto simp: active_ok_def)

lemma table_okD: "table_ok nT ls ad \<Longrightarrow> (a, t) \<in> set ls \<Longrightarrow> t < nT \<and> ad t = a \<and> map_of ls a = Some t"
  by (auto simp: table_ok_def)

lemma table_ok_lookup: "table_ok nT ls ad \<Longrightarrow> map_of ls (ad t) = Some t \<longleftrightarrow> (\<exists>a. (a, t) \<in> set ls)"
  using table_okD map_of_SomeD by metis

lemma active_ok_pc:
  "active_ok ls ac hs \<Longrightarrow> i < length hs \<Longrightarrow> snd (hs ! i) \<noteq> HDone \<Longrightarrow> pc \<noteq> HDone \<Longrightarrow>
   active_ok ls ac (hs[i := (fst (hs ! i), pc)])"
  by (auto simp: active_ok_def inflight_update)

lemma active_ok_count:
  "table_ok nT ls ad \<Longrightarrow> active_ok ls ac hs \<Longrightarrow> (\<And>u. inflight u hs' = inflight u hs + (if u = t then d else 0)) \<Longrightarrow>
   active_ok ls (if map_of ls (ad t) = Some t then ac(t := ac t + d) else ac) hs'"
  by (auto simp: table_ok_lookup) (fastforce simp: active_ok_def)+

subsection \<open>The steps keep the invariants\<close>

lemma queue_inv_arrives: "queue_inv s \<Longrightarrow> table_inv s \<Longrightarrow> queue_inv (client_arrives listen now claims k s)"
proof -
  assume q: "queue_inv s" and t: "table_inv s"
  obtain r m' where g: "getOrCreateListener listen now claims (mgr s) = (r, m')" by fastforce
  show ?thesis
  proof (rule view_getOrCreate [OF g])
    fix t' assume r: "r = Inr t'" "map_of (listeners (mgr s)) (fst (snd (bindAddr claims))) = Some t'"
      "m' = upd_tl t' (\<lambda>l. l\<lparr>lastUsed := now\<rparr>) (mgr s)"
    have "t' < nextTl (mgr s)" using t r(2) map_of_SomeD table_okD unfolding table_inv_def by metis
    then show ?thesis using q r g
      by (simp add: client_arrives_def case_prod_unfold queue_inv_def view_simps queue_ok_arrive hold_ok_arrive)
  next
    fix e assume "r = Inl e" "m' = mgr s"
    then show ?thesis using q g by (simp add: client_arrives_def queue_inv_def)
  next
    fix a assume "r = Inr (nextTl (mgr s))" "nextTl m' = Suc (nextTl (mgr s))" "nextWait m' = nextWait (mgr s)"
      "queues m' = (queues (mgr s))(nextTl (mgr s) := [])" "caps m' = (caps (mgr s))(nextTl (mgr s) := 10)"
      "taken m' = taken (mgr s)"
    then show ?thesis using q g
      by (simp add: client_arrives_def case_prod_unfold queue_inv_def view_simps
          queue_ok_arrive hold_ok_arrive queue_ok_listener hold_ok_listener)
  qed
qed

lemma table_inv_arrives: "queue_inv s \<Longrightarrow> table_inv s \<Longrightarrow> table_inv (client_arrives listen now claims k s)"
proof -
  assume q: "queue_inv s" and t: "table_inv s"
  obtain r m' where g: "getOrCreateListener listen now claims (mgr s) = (r, m')" by fastforce
  have fresh: "inflight (nextTl (mgr s)) (handlers s) = 0"
    using q by (intro inflight_fresh) (auto simp: queue_inv_def hold_ok_def)
  show ?thesis
  proof (rule view_getOrCreate [OF g])
    fix t' assume "r = Inr t'" "m' = upd_tl t' (\<lambda>l. l\<lparr>lastUsed := now\<rparr>) (mgr s)"
    then show ?thesis using t g
      by (simp add: client_arrives_def case_prod_unfold table_inv_def view_simps)
  next
    fix e assume "r = Inl e" "m' = mgr s"
    then show ?thesis using t g by (simp add: client_arrives_def table_inv_def)
  next
    fix a assume new: "r = Inr (nextTl (mgr s))" "map_of (listeners (mgr s)) a = None"
      "listeners m' = (a, nextTl (mgr s)) # listeners (mgr s)" "nextTl m' = Suc (nextTl (mgr s))"
      "addrs m' = (addrs (mgr s))(nextTl (mgr s) := a)" "actives m' = (actives (mgr s))(nextTl (mgr s) := 0)"
    have old: "u < nextTl (mgr s)" if "(b, u) \<in> set (listeners (mgr s))" for b u
      using t that table_okD unfolding table_inv_def by metis
    have "table_ok (nextTl m') (listeners m') (addrs m')"
      using t new unfolding table_inv_def table_ok_def map_of_eq_None_iff by fastforce
    moreover have "active_ok (listeners m') (actives m') (handlers s)"
      using t new fresh old unfolding table_inv_def active_ok_def by fastforce
    ultimately show ?thesis using new g
      by (simp add: client_arrives_def case_prod_unfold table_inv_def view_simps)
  qed
qed

lemma enqueue_pass_cases:
  "enqueue_pass t w m =
     (let m1 = purgeDoneWaiters t m in
      if quit (tls m1 t) then (Some False, m1)
      else if length (queues m1 t) < caps m1 t
      then (Some True, upd_tl t (\<lambda>l. l\<lparr>waiting := waiting l @ [w]\<rparr>) m1)
      else (None, m1))"
  by (simp add: enqueue_pass_def view_defs Let_def)

lemma queue_inv_enqueues: "queue_inv s \<Longrightarrow> at_c s w CEnqueue \<Longrightarrow> queue_inv (client_enqueues w s)"
proof -
  assume q: "queue_inv s" and w: "at_c s w CEnqueue"
  let ?t = "ctl s w"
  define m1 where "m1 = purgeDoneWaiters ?t (mgr s)"
  have ok: "queue_inv (s\<lparr>mgr := m1\<rparr>)"
    using q by (simp add: queue_inv_def m1_def view_simps queue_ok_filter)
  have n: "nextWait m1 = nextWait (mgr s)" by (simp add: m1_def view_simps)
  show ?thesis
    using ok w queue_ok_append [of "nextTl m1" "nextWait m1" "queues m1" "caps m1" "taken m1" "cpc s" "ctl s" w]
    unfolding client_enqueues_def enqueue_pass_cases m1_def [symmetric] Let_def
    by (simp add: queue_inv_def set_cpc_def view_simps queue_ok_pc n)
qed

lemma table_inv_enqueues: "table_inv s \<Longrightarrow> table_inv (client_enqueues w s)"
  unfolding client_enqueues_def enqueue_pass_cases Let_def
  by (simp add: table_inv_def set_cpc_def view_simps)

lemma acquire_pass_cases:
  "acquire_pass late t m =
     (let m1 = purgeDoneWaiters t m in
      case queues m1 t of
        w # ws \<Rightarrow> (Some (Some w), markAcquired w (upd_tl t (\<lambda>l. l\<lparr>waiting := ws\<rparr>) m1))
      | [] \<Rightarrow> if late \<or> quit (tls m1 t) then (Some None, m1) else (None, m1))"
  by (simp add: acquire_pass_def queues_def Let_def)

lemma queue_inv_acquires: "queue_inv s \<Longrightarrow> at_h s i HAcquire \<Longrightarrow> queue_inv (handler_acquires late i s)"
proof -
  assume q: "queue_inv s" and i: "at_h s i HAcquire"
  define t where "t = fst (handlers s ! i)"
  define m1 where "m1 = purgeDoneWaiters t (mgr s)"
  have ok: "queue_ok (nextTl m1) (nextWait m1) (queues m1) (caps m1) (taken m1) (cpc s) (ctl s)"
    "hold_ok (nextTl m1) (nextWait m1) (taken m1) (ctl s) (handlers s)"
    using q by (simp_all add: queue_inv_def m1_def view_simps queue_ok_filter)
  have t: "t < nextTl m1" using ok(2) i by (auto simp: hold_ok_def t_def)
  show ?thesis
  proof (cases "queues m1 t")
    case Nil
    then show ?thesis using ok i
      unfolding handler_acquires_def acquire_pass_cases t_def [symmetric] m1_def [symmetric] Let_def
      by (simp add: queue_inv_def set_hpc_def hold_ok_pc)
  next
    case (Cons w ws)
    have w: "w < nextWait m1" "ctl s w = t" "\<not> taken m1 w"
      using queue_ok_memD [OF ok(1) t, of w] Cons by auto
    show ?thesis using queue_ok_pop [OF ok(1) t Cons] hold_ok_take [OF ok(2) _ w(1) w(3), of i] Cons i w
      unfolding handler_acquires_def acquire_pass_cases t_def [symmetric] m1_def [symmetric] Let_def
      by (simp add: queue_inv_def set_hpc_def view_simps t_def)
  qed
qed

lemma table_inv_acquires: "table_inv s \<Longrightarrow> at_h s i HAcquire \<Longrightarrow> table_inv (handler_acquires late i s)"
  unfolding handler_acquires_def acquire_pass_cases Let_def
  by (simp add: table_inv_def set_hpc_def view_simps active_ok_pc split: list.split)

lemma queue_inv_step: "mgr_step s s' \<Longrightarrow> queue_inv s \<Longrightarrow> table_inv s \<Longrightarrow> queue_inv s'"
proof (induction rule: mgr_step.induct)
  case arrive then show ?case by (simp add: queue_inv_arrives)
next
  case enqueue then show ?case by (simp add: queue_inv_enqueues)
next
  case acquire then show ?case by (simp add: queue_inv_acquires)
next
  case acquired_touch
  then show ?case by (simp add: queue_inv_def set_hpc_def view_simps hold_ok_pc)
qed (simp_all add: queue_inv_def set_cpc_def set_hpc_def view_simps beginIncoming_eq queue_intros
       reapIdleListenersOnce_def CloseManager_def)

lemma table_inv_step: "mgr_step s s' \<Longrightarrow> queue_inv s \<Longrightarrow> table_inv s \<Longrightarrow> table_inv s'"
proof (induction rule: mgr_step.induct)
  case arrive then show ?case by (simp add: table_inv_arrives)
next
  case enqueue then show ?case by (simp add: table_inv_enqueues)
next
  case acquire then show ?case by (simp add: table_inv_acquires)
next
  case (accept s t now)
  then have "active_ok (listeners (mgr s)) (actives (updateActivePipes now t 1 (mgr s))) (handlers s @ [(t, HStart)])"
    unfolding view_active by (intro active_ok_count) (auto simp: table_inv_def inflight_accept)
  with accept show ?case by (simp add: table_inv_def view_simps beginIncoming_eq del: view_active(5))
next
  case (handler_ends s i now)
  then have "active_ok (listeners (mgr s)) (actives (updateActivePipes now (fst (handlers s ! i)) (- 1) (mgr s)))
      ((handlers s)[i := (fst (handlers s ! i), HDone)])"
    unfolding view_active by (intro active_ok_count) (auto simp: table_inv_def inflight_update)
  with handler_ends show ?case by (simp add: table_inv_def set_hpc_def view_simps del: view_active(5))
next
  case (listener_ends s t)
  then show ?case
    by (auto simp: table_inv_def view_simps deleteListener_def intro: table_ok_filter active_ok_filter)
next
  case reap
  then show ?case
    by (simp add: table_inv_def view_simps reapIdleListenersOnce_def table_ok_filter active_ok_filter)
next
  case shutdown
  then show ?case by (simp add: table_inv_def view_simps CloseManager_def table_ok_def active_ok_def)
qed (simp_all add: table_inv_def set_cpc_def set_hpc_def view_simps active_ok_pc)

lemma reachable_inv: "mgr_step\<^sup>*\<^sup>* (NewReverseTunnelManager idle) s \<Longrightarrow> queue_inv s \<and> table_inv s"
proof (induction rule: rtranclp_induct)
  case base
  show ?case by (simp add: NewReverseTunnelManager_def queue_inv_def table_inv_def queue_ok_def hold_ok_def
      table_ok_def active_ok_def)
next
  case step
  then show ?case using queue_inv_step table_inv_step by blast
qed

subsection \<open>A concrete run\<close>

definition os_ok :: "string \<Rightarrow> string \<Rightarrow> go_error option" where
  "os_ok network a = None"

definition reverse_demo :: JwtTunnelConfig where
  "reverse_demo = \<lparr>ID = ''t'', Protocol = noProtocol\<lparr>ReverseUnix := Some \<lparr>rUnixPath = ''s''\<rparr>\<rparr>,
     Remote = [], Port = 0\<rparr>"

definition run1 :: sys where
  "run1 = client_arrives os_ok 0 reverse_demo WsConn (NewReverseTunnelManager 10)"
definition run2 :: sys where "run2 = client_enqueues 0 run1"
definition run3 :: sys where
  "run3 = set_cpc 0 (if idleTimeout (mgr run2) \<le> 0 then CAfter else CWait) (on_mgr (touchListener 1 (ctl run2 0)) run2)"
definition run4 :: sys where "run4 = set_cpc 0 CTimeout run3"
definition run5 :: sys where
  "run5 = set_cpc 0 (if isAcquired 0 (mgr run4) then CAfter else CTimeoutClose) run4"
definition run6 :: sys where
  "run6 = (on_mgr (beginIncoming 2 0) run5)\<lparr>handlers := handlers run5 @ [(0, HStart)]\<rparr>"
definition run7 :: sys where "run7 = set_hpc 0 HAcquire run6"
definition run8 :: sys where "run8 = handler_acquires False 0 run7"
definition run9 :: sys where
  "run9 = set_hpc 0 (HPipe 0) (on_mgr (touchListener 3 (fst (handlers run8 ! 0))) run8)"
definition run10 :: sys where "run10 = set_cpc 0 CPurge (on_mgr (finish 0 True) run9)"

lemma run_to_9: "mgr_step\<^sup>*\<^sup>* (NewReverseTunnelManager 10) run9"
proof -
  have "mgr_step (NewReverseTunnelManager 10) run1" unfolding run1_def by (rule mgr_step.arrive)
  moreover have "mgr_step run1 run2" unfolding run2_def by (rule mgr_step.enqueue) code_simp
  moreover have "mgr_step run2 run3" unfolding run3_def by (rule mgr_step.enqueued) code_simp
  moreover have "mgr_step run3 run4" unfolding run4_def by (rule mgr_step.wait_timer) code_simp
  moreover have "mgr_step run4 run5" unfolding run5_def by (rule mgr_step.timeout_check) code_simp
  moreover have "mgr_step run5 run6" unfolding run6_def by (rule mgr_step.accept) code_simp
  moreover have "mgr_step run6 run7" unfolding run7_def by (rule mgr_step.handshake) code_simp
  moreover have "mgr_step run7 run8" unfolding run8_def by (rule mgr_step.acquire) code_simp
  moreover have "mgr_step run8 run9" unfolding run9_def by (rule mgr_step.acquired_touch) code_simp
  ultimately show ?thesis by (meson converse_rtranclp_into_rtranclp rtranclp.rtrancl_refl)
qed

lemma run_to_10: "mgr_step\<^sup>*\<^sup>* (NewReverseTunnelManager 10) run10"
proof -
  have "mgr_step run9 run10" unfolding run10_def by (rule mgr_step.timeout_close) code_simp
  with run_to_9 show ?thesis by (rule rtranclp.rtrancl_into_rtrancl)
qed


subsection \<open>Properties\<close>

text \<open>C7. In every reachable state of the manager, whatever the interleaving of clients, accept loops,
  handlers, timers, the reaper and the shutdown: the queue of a listener holds at most ten clients,
  none twice; two handlers never pipe to the same client; and a client held by a handler belongs to
  that handler's listener, is marked as acquired and is in no queue.\<close>

theorem exclusive_hand_over:
  assumes "mgr_step\<^sup>*\<^sup>* (NewReverseTunnelManager idle) s"
  shows "(\<forall>t<nextTl (mgr s). length (waiting (tls (mgr s) t)) \<le> 10 \<and> distinct (waiting (tls (mgr s) t))) \<and>
    (\<forall>i<length (handlers s). \<forall>w. holds (snd (handlers s ! i)) = Some w \<longrightarrow>
       ctl s w = fst (handlers s ! i) \<and> acquired (waits (mgr s) w) \<and>
       (\<forall>t<nextTl (mgr s). w \<notin> set (waiting (tls (mgr s) t))) \<and>
       (\<forall>j<length (handlers s). holds (snd (handlers s ! j)) = Some w \<longrightarrow> j = i))"
proof -
  have q: "queue_ok (nextTl (mgr s)) (nextWait (mgr s)) (queues (mgr s)) (caps (mgr s)) (taken (mgr s)) (cpc s) (ctl s)"
    and h: "hold_ok (nextTl (mgr s)) (nextWait (mgr s)) (taken (mgr s)) (ctl s) (handlers s)"
    using reachable_inv [OF assms] by (simp_all add: queue_inv_def)
  have taken: "taken (mgr s) w" "ctl s w = fst (handlers s ! i)"
    if "i < length (handlers s)" "holds (snd (handlers s ! i)) = Some w" for i w
    using h that unfolding hold_ok_def by blast+
  show ?thesis
  proof (intro conjI allI impI)
    fix t assume "t < nextTl (mgr s)"
    from queue_okD [OF q this]
    show "length (waiting (tls (mgr s) t)) \<le> 10" "distinct (waiting (tls (mgr s) t))"
      by (simp_all add: queues_def)
  next
    fix i w assume i: "i < length (handlers s)" "holds (snd (handlers s ! i)) = Some w"
    show "ctl s w = fst (handlers s ! i)" "acquired (waits (mgr s) w)"
      using taken [OF i] by (simp_all add: taken_def)
    show "w \<notin> set (waiting (tls (mgr s) t))" if "t < nextTl (mgr s)" for t
      using queue_ok_memD [OF q that, of w] taken [OF i] by (auto simp: queues_def)
    show "j = i" if "j < length (handlers s)" "holds (snd (handlers s ! j)) = Some w" for j
      using h i that unfolding hold_ok_def by blast
  qed
qed

theorem exclusive_hand_over_witness:
  "snd (handlers run9 ! 0) = HPipe 0 \<and> acquired (waits (mgr run9) 0) \<and> 0 \<notin> set (waiting (tls (mgr run9) 0))"
proof -
  have "0 < length (handlers run9)" "snd (handlers run9 ! 0) = HPipe 0" "0 < nextTl (mgr run9)" by code_simp+
  moreover from this have "holds (snd (handlers run9 ! 0)) = Some 0" by simp
  ultimately show ?thesis using exclusive_hand_over [OF run_to_9] by blast
qed

text \<open>C10. In every reachable state a pass of the reaper leaves in the table exactly the listeners with
  a handler in flight and those used within the idle timeout; the others are the ones it closes.\<close>

theorem reaper_exact:
  assumes "mgr_step\<^sup>*\<^sup>* (NewReverseTunnelManager idle) s"
  shows "set (listeners (snd (reapIdleListenersOnce now (mgr s)))) =
      {(a, t) \<in> set (listeners (mgr s)).
         (\<exists>i<length (handlers s). fst (handlers s ! i) = t \<and> snd (handlers s ! i) \<noteq> HDone) \<or>
         now - lastUsed (tls (mgr s) t) < idleTimeout (mgr s)} \<and>
    set (fst (reapIdleListenersOnce now (mgr s))) =
      snd ` (set (listeners (mgr s)) - set (listeners (snd (reapIdleListenersOnce now (mgr s)))))"
proof -
  have ac: "active (tls (mgr s) t) = inflight t (handlers s)" if "(a, t) \<in> set (listeners (mgr s))" for a t
    using reachable_inv [OF assms] that unfolding table_inv_def active_ok_def actives_def by auto
  have pos: "0 < inflight t hs \<longleftrightarrow> (\<exists>i<length hs. fst (hs ! i) = t \<and> snd (hs ! i) \<noteq> HDone)" for t hs
    unfolding inflight_def by (simp add: filter_empty_conv) (metis in_set_conv_nth)
  have st: "stale now (mgr s) t \<longleftrightarrow> \<not> ((\<exists>i<length (handlers s). fst (handlers s ! i) = t \<and> snd (handlers s ! i) \<noteq> HDone) \<or>
         now - lastUsed (tls (mgr s) t) < idleTimeout (mgr s))" if "(a, t) \<in> set (listeners (mgr s))" for a t
    unfolding stale_def ac [OF that] pos by blast
  show ?thesis
  proof
    show "set (fst (reapIdleListenersOnce now (mgr s))) =
      snd ` (set (listeners (mgr s)) - set (listeners (snd (reapIdleListenersOnce now (mgr s)))))"
      unfolding reapIdleListenersOnce_def by (auto simp: image_iff Bex_def)
    show "set (listeners (snd (reapIdleListenersOnce now (mgr s)))) =
      {(a, t) \<in> set (listeners (mgr s)).
         (\<exists>i<length (handlers s). fst (handlers s ! i) = t \<and> snd (handlers s ! i) \<noteq> HDone) \<or>
         now - lastUsed (tls (mgr s) t) < idleTimeout (mgr s)}"
      using st unfolding reapIdleListenersOnce_def by auto
  qed
qed

theorem reaper_exact_witness:
  "(''s'', 0) \<in> set (listeners (snd (reapIdleListenersOnce 1000 (mgr run9))))"
proof -
  have "(''s'', 0) \<in> set (listeners (mgr run9))" "0 < length (handlers run9)" "fst (handlers run9 ! 0) = 0"
    "snd (handlers run9 ! 0) \<noteq> HDone" by code_simp+
  then show ?thesis using reaper_exact [OF run_to_9, of 1000] by auto
qed

text \<open>\<open>k\<close> handlers of a listener that take a client each, one after the other.\<close>

primrec serve :: "nat \<Rightarrow> nat \<Rightarrow> manager \<Rightarrow> nat list" where
  "serve 0 t m = []"
| "serve (Suc k) t m =
     (case acquire_pass True t m of
        (Some (Some w), m') \<Rightarrow> w # serve k t m'
      | _ \<Rightarrow> [])"

lemma serve_oldest_first:
  "serve k t m = take k (filter (\<lambda>w. \<not> isDone (waits m w)) (waiting (tls m t)))"
proof (induction k arbitrary: m)
  case (Suc k)
  define live where "live = filter (\<lambda>w. \<not> isDone (waits m w)) (waiting (tls m t))"
  show ?case
  proof (cases live)
    case Nil
    then show ?thesis
      by (simp add: live_def acquire_pass_def Let_def purgeDoneWaiters_def upd_tl_def)
  next
    case (Cons w ws)
    define m1 where "m1 = markAcquired w (upd_tl t (\<lambda>l. l\<lparr>waiting := ws\<rparr>) (purgeDoneWaiters t m))"
    have "acquire_pass True t m = (Some (Some w), m1)"
      using Cons by (simp add: live_def m1_def acquire_pass_def Let_def purgeDoneWaiters_def upd_tl_def)
    moreover have "waiting (tls m1 t) = ws" "isDone (waits m1 x) = isDone (waits m x)" for x
      by (simp_all add: m1_def markAcquired_def upd_tl_def upd_wait_def purgeDoneWaiters_def)
    moreover have "\<forall>x\<in>set live. \<not> isDone (waits m x)" by (simp add: live_def)
    then have "filter (\<lambda>w. \<not> isDone (waits m w)) ws = ws" using Cons by (simp add: filter_id_conv)
    ultimately show ?thesis using Cons Suc.IH [of m1] by (simp add: live_def)
  qed
qed simp

text \<open>C34. Clients are served in the order of their arrival: after a client has been put in the
  queue, the handlers that follow take the clients that were already waiting and are still
  connected, oldest first, and then the new one.\<close>

theorem queue_fifo:
  assumes "enqueue_pass t w m = (Some True, m')" and "\<not> isDone (waits m w)"
  shows "serve k t m' = take k (filter (\<lambda>v. \<not> isDone (waits m v)) (waiting (tls m t)) @ [w])"
proof -
  have "m' = upd_tl t (\<lambda>l. l\<lparr>waiting := waiting l @ [w]\<rparr>) (purgeDoneWaiters t m)"
    using assms(1) by (auto simp: enqueue_pass_def Let_def split: if_splits)
  then show ?thesis
    using assms(2) by (simp add: serve_oldest_first upd_tl_def purgeDoneWaiters_def)
qed

theorem queue_fifo_witness:
  "serve 2 0 (snd (enqueue_pass 0 1 (mgr run3))) = [0, 1]"
proof -
  have "fst (enqueue_pass 0 1 (mgr run3)) = Some True" "\<not> isDone (waits (mgr run3) 1)"
    "filter (\<lambda>v. \<not> isDone (waits (mgr run3) v)) (waiting (tls (mgr run3) 0)) = [0]" by code_simp+
  then show ?thesis
    using queue_fifo [of 0 1 "mgr run3" "snd (enqueue_pass 0 1 (mgr run3))" 2] by (simp add: prod_eq_iff)
qed

text \<open>Reverse tunnels for TCP, UDP, SOCKS5 and HTTP share a listener exactly when they name the
  same host and port. The kind of the tunnel does not matter: a second tunnel joins the listener of
  the first even when the two ask for different protocols.\<close>

theorem listener_shared_iff:
  assumes "mgr_step\<^sup>*\<^sup>* (NewReverseTunnelManager idle) s"
    and "getOrCreateListener listen now c1 (mgr s) = (Inr t1, m1)"
    and "getOrCreateListener listen now' c2 m1 = (Inr t2, m2)"
    and "ReverseUnix (Protocol c1) = None" and "ReverseUnix (Protocol c2) = None"
  shows "t1 = t2 \<longleftrightarrow> Remote c1 = Remote c2 \<and> Port c1 = Port c2"
proof -
  define a1 a2 where "a1 = hostport (Remote c1) (Port c1)" and "a2 = hostport (Remote c2) (Port c2)"
  have b: "fst (snd (bindAddr c1)) = a1" "fst (snd (bindAddr c2)) = a2"
    using assms(4,5) by (simp_all add: bindAddr_def a1_def a2_def)
  have tok: "table_ok (nextTl (mgr s)) (listeners (mgr s)) (addrs (mgr s))"
    using reachable_inv [OF assms(1)] by (simp add: table_inv_def)
  have tok1: "table_ok (nextTl m1) (listeners m1) (addrs m1)" and l1: "map_of (listeners m1) a1 = Some t1"
    using assms(2) tok b
    by (auto elim!: view_getOrCreate simp: view_simps table_ok_def map_of_eq_None_iff image_iff less_Suc_eq)
  have old: "u < nextTl m1" "addrs m1 u = a" if "map_of (listeners m1) a = Some u" for a u
    using table_okD [OF tok1 map_of_SomeD [OF that]] by simp_all
  have "t1 = t2 \<longleftrightarrow> a1 = a2"
  proof (rule view_getOrCreate [OF assms(3)], goal_cases)
    case (1 t)
    then show ?thesis using old l1 b by (metis option.inject sum.inject(2))
  next
    case (3 a)
    then show ?thesis using old [OF l1] l1 b by auto
  qed simp
  then show ?thesis by (simp add: a1_def a2_def hostport_inject)
qed

definition tcp_demo :: JwtTunnelConfig where
  "tcp_demo = reverse_demo\<lparr>Protocol := noProtocol\<lparr>ReverseTcp := Some ()\<rparr>\<rparr>"
definition udp_demo :: JwtTunnelConfig where
  "udp_demo = reverse_demo\<lparr>Protocol := noProtocol\<lparr>ReverseUdp := Some \<lparr>udpTimeout = None\<rparr>\<rparr>\<rparr>"

theorem listener_shared_iff_witness:
  "fst (bindAddr tcp_demo) = ''tcp'' \<and> fst (bindAddr udp_demo) = ''udp'' \<and>
   (let m = snd (getOrCreateListener os_ok 0 tcp_demo (mgr (NewReverseTunnelManager 10))) in
    fst (getOrCreateListener os_ok 0 tcp_demo (mgr (NewReverseTunnelManager 10))) = Inr 0 \<and>
    fst (getOrCreateListener os_ok 1 udp_demo m) = Inr 0)"
proof -
  let ?s = "NewReverseTunnelManager 10"
  let ?m = "snd (getOrCreateListener os_ok 0 tcp_demo (mgr ?s))"
  have g: "fst (getOrCreateListener os_ok 0 tcp_demo (mgr ?s)) = Inr 0"
    "\<not> isl (fst (getOrCreateListener os_ok 1 udp_demo ?m))" by code_simp+
  then obtain t where t: "fst (getOrCreateListener os_ok 1 udp_demo ?m) = Inr t"
    by (cases "fst (getOrCreateListener os_ok 1 udp_demo ?m)") auto
  have "0 = t"
    using g t by (subst listener_shared_iff [where s = ?s and listen = os_ok and now = 0 and now' = 1 and
        ?c1.0 = tcp_demo and ?c2.0 = udp_demo and ?m1.0 = ?m and ?m2.0 = "snd (getOrCreateListener os_ok 1 udp_demo ?m)"])
      (auto simp: prod_eq_iff tcp_demo_def udp_demo_def noProtocol_def)
  with g t show ?thesis by (simp add: Let_def) code_simp
qed

text \<open>The sequential \<^verbatim>\<open>Close\<close>: the table is emptied, then every listener that was in it is closed.\<close>

definition CloseAll :: "manager \<Rightarrow> manager" where
  "CloseAll m = fold (\<lambda>t. closeTunnelListener t True) (fst (CloseManager m)) (snd (CloseManager m))"

lemma fold_close:
  "fold (\<lambda>t. closeTunnelListener t True) ts m =
     m\<lparr>tls := (\<lambda>u. if u \<in> set ts then (tls m u)\<lparr>quit := True, lnClosed := True\<rparr> else tls m u)\<rparr>"
  by (induction ts arbitrary: m) (auto simp: closeTunnelListener_def upd_tl_def fun_eq_iff)



end
