(* ===== verification/Go_Http.thy ===== *)
theory Go_Http
  imports Go_Net "HOL-Library.AList"
begin

text \<open>
  What the program uses of \<^verbatim>\<open>net/http\<close>, \<^verbatim>\<open>net/textproto\<close>, \<^verbatim>\<open>net/url\<close> and
  \<^verbatim>\<open>encoding/base64\<close>: header maps with canonical names, parsing of URLs, the heads of requests
  and responses read off a stream, and base 64.

  Every reader is total; the lemmas show that base 64 decodes what it encodes, and that a head
  built line by line is read back as its lines.
\<close>

subsection \<open>Headers\<close>

definition upper :: "char \<Rightarrow> char" where
  "upper c = (if 97 \<le> code c \<and> code c \<le> 122 then chr (code c - 32) else c)"

abbreviation is_alpha :: "char \<Rightarrow> bool" where
  "is_alpha c \<equiv> 65 \<le> code c \<and> code c \<le> 90 \<or> 97 \<le> code c \<and> code c \<le> 122"

definition is_token :: "char \<Rightarrow> bool" where
  "is_token c \<longleftrightarrow> is_digit c \<or> is_alpha c \<or> c \<in> set ''!#$%&*+-.^_|~'' \<or> code c = 39 \<or> code c = 96"

fun canon :: "bool \<Rightarrow> string \<Rightarrow> string" where
  "canon up [] = []"
| "canon up (c # cs) = (if up then upper c else lower c) # canon (c = CHR ''-'') cs"

definition CanonicalHeaderKey :: "string \<Rightarrow> string" where
  "CanonicalHeaderKey s = (if list_all is_token s then canon True s else s)"

type_synonym header = "(string \<times> string list) list"

definition Get :: "header \<Rightarrow> string \<Rightarrow> string" where
  "Get h k = (case map_of h (CanonicalHeaderKey k) of Some (v # _) \<Rightarrow> v | _ \<Rightarrow> [])"

definition SetHeader :: "string \<Rightarrow> string \<Rightarrow> header \<Rightarrow> header" where
  "SetHeader k v h = AList.update (CanonicalHeaderKey k) [v] h"

definition AddHeader :: "string \<Rightarrow> string \<Rightarrow> header \<Rightarrow> header" where
  "AddHeader k v h = AList.update k ((case map_of h k of None \<Rightarrow> [] | Some vs \<Rightarrow> vs) @ [v]) h"

lemma Get_SetHeader:
  "Get (SetHeader k v h) k' = (if CanonicalHeaderKey k = CanonicalHeaderKey k' then v else Get h k')"
  by (simp add: Get_def SetHeader_def update_conv')

subsection \<open>Base 64\<close>

definition b64 :: "nat \<Rightarrow> char" where
  "b64 n = (if n < 26 then chr (65 + n) else if n < 52 then chr (71 + n) else if n < 62 then chr (n - 4)
     else if n = 62 then CHR ''+'' else CHR ''/'')"

definition unb64 :: "char \<Rightarrow> nat option" where
  "unb64 c =
     (if 65 \<le> code c \<and> code c \<le> 90 then Some (code c - 65)
      else if 97 \<le> code c \<and> code c \<le> 122 then Some (code c - 71)
      else if is_digit c then Some (code c + 4)
      else if c = CHR ''+'' then Some 62 else if c = CHR ''/'' then Some 63 else None)"

fun EncodeToString :: "byte list \<Rightarrow> string" where
  "EncodeToString [] = []"
| "EncodeToString [a] =
     [b64 (unat a div 4), b64 (unat a mod 4 * 16), CHR ''='', CHR ''='']"
| "EncodeToString [a, b] =
     [b64 (unat a div 4), b64 (unat a mod 4 * 16 + unat b div 16), b64 (unat b mod 16 * 4), CHR ''='']"
| "EncodeToString (a # b # c # bs) =
     b64 (unat a div 4) # b64 (unat a mod 4 * 16 + unat b div 16) #
     b64 (unat b mod 16 * 4 + unat c div 64) # b64 (unat c mod 64) # EncodeToString bs"

text \<open>The decoder skips line breaks, and accepts padding only at the end.\<close>

fun b64_groups :: "string \<Rightarrow> byte list option" where
  "b64_groups [] = Some []"
| "b64_groups (c1 # c2 # c3 # c4 # cs) =
     (if c4 = CHR ''='' then
        (if cs \<noteq> [] then None
         else if c3 = CHR ''='' then
           (case (unb64 c1, unb64 c2) of
              (Some v1, Some v2) \<Rightarrow> Some [of_nat (v1 * 4 + v2 div 16)]
            | _ \<Rightarrow> None)
         else
           (case (unb64 c1, unb64 c2, unb64 c3) of
              (Some v1, Some v2, Some v3) \<Rightarrow>
                Some [of_nat (v1 * 4 + v2 div 16), of_nat (v2 mod 16 * 16 + v3 div 4)]
            | _ \<Rightarrow> None))
      else
        (case (unb64 c1, unb64 c2, unb64 c3, unb64 c4) of
           (Some v1, Some v2, Some v3, Some v4) \<Rightarrow>
             map_option (\<lambda>bs. of_nat (v1 * 4 + v2 div 16) # of_nat (v2 mod 16 * 16 + v3 div 4) #
                of_nat (v3 mod 4 * 64 + v4) # bs) (b64_groups cs)
         | _ \<Rightarrow> None))"
| "b64_groups _ = None"

definition DecodeString :: "string \<Rightarrow> byte list option" where
  "DecodeString s = b64_groups (filter (\<lambda>c. code c \<noteq> 10 \<and> code c \<noteq> 13) s)"

lemma unb64_b64: "n < 64 \<Longrightarrow> unb64 (b64 n) = Some n"
  by (auto simp: unb64_def b64_def)

lemma b64_code: "n < 64 \<Longrightarrow> 32 < code (b64 n) \<and> code (b64 n) < 127 \<and> code (b64 n) \<noteq> 61"
  by (auto simp: b64_def)

lemma b64_not_pad: "n < 64 \<Longrightarrow> b64 n \<noteq> CHR ''=''"
proof
  assume "n < 64" "b64 n = CHR ''=''"
  with b64_code [of n] have "code (CHR ''='') \<noteq> 61" by metis
  then show False by simp
qed

lemma sextets:
  fixes a b c :: byte
  shows "unat a div 4 < 64" "unat a mod 4 * 16 < 64" "unat a mod 4 * 16 + unat b div 16 < 64"
    "unat b mod 16 * 4 < 64" "unat b mod 16 * 4 + unat c div 64 < 64" "unat c mod 64 < 64"
proof -
  have d: "unat a div 4 < 64" "unat b div 16 < 16" "unat c div 64 < 4"
    by (simp_all add: less_mult_imp_div_less)
  moreover have "unat a mod 4 < 4" "unat b mod 16 < 16" by simp_all
  ultimately show "unat a div 4 < 64" "unat a mod 4 * 16 < 64" "unat a mod 4 * 16 + unat b div 16 < 64"
    "unat b mod 16 * 4 < 64" "unat b mod 16 * 4 + unat c div 64 < 64" "unat c mod 64 < 64"
    by linarith+
qed

lemma octets:
  fixes b :: byte
  shows "unat b div 16 div 16 = 0" "unat b div 16 mod 16 = unat b div 16" "unat b div 64 div 4 = 0"
    "unat b div 64 mod 4 = unat b div 64"
  by (simp_all add: less_mult_imp_div_less)

lemma b64_groups_EncodeToString: "b64_groups (EncodeToString bs) = Some bs"
  by (induction bs rule: EncodeToString.induct)
     (simp_all add: unb64_b64 b64_not_pad sextets octets del: of_nat_add of_nat_mult)

lemma EncodeToString_plain: "c \<in> set (EncodeToString bs) \<Longrightarrow> 32 < code c \<and> code c < 127"
  by (induction bs rule: EncodeToString.induct) (auto simp: sextets b64_code)

lemma EncodeToString_eq_Nil: "EncodeToString bs = [] \<longleftrightarrow> bs = []"
  by (cases bs rule: EncodeToString.cases) simp_all

lemma DecodeString_EncodeToString: "DecodeString (EncodeToString bs) = Some bs"
proof -
  have "filter (\<lambda>c. code c \<noteq> 10 \<and> code c \<noteq> 13) (EncodeToString bs) = EncodeToString bs"
    by (rule filter_True) (auto dest: EncodeToString_plain)
  then show ?thesis by (simp add: DecodeString_def b64_groups_EncodeToString)
qed

subsection \<open>URLs\<close>

record URL =
  Scheme :: string
  Opaque :: string
  User :: "string option"
  Host :: string
  Path :: string
  RawPath :: string
  RawQuery :: string
  ForceQuery :: bool

definition Index :: "char \<Rightarrow> string \<Rightarrow> nat option" where
  "Index c s = (if c \<in> set s then Some (length (takeWhile (\<lambda>d. d \<noteq> c) s)) else None)"

text \<open>The part before the first \<open>c\<close> and the part after it, if there is one.\<close>

definition cut :: "char \<Rightarrow> string \<Rightarrow> string \<times> string" where
  "cut c s = (takeWhile (\<lambda>d. d \<noteq> c) s, drop 1 (dropWhile (\<lambda>d. d \<noteq> c) s))"

fun scheme_end :: "string \<Rightarrow> nat \<Rightarrow> nat option option" where
  "scheme_end [] i = Some None"
| "scheme_end (c # cs) i =
     (if is_alpha c then scheme_end cs (Suc i)
      else if is_digit c \<or> c \<in> set ''+-.'' then (if i = 0 then Some None else scheme_end cs (Suc i))
      else if c = CHR '':'' then (if i = 0 then None else Some (Some i))
      else Some None)"

definition getScheme :: "string \<Rightarrow> go_error + string \<times> string" where
  "getScheme s =
     (case scheme_end s 0 of
        None \<Rightarrow> Inl (Errorf ''missing protocol scheme'')
      | Some None \<Rightarrow> Inr ([], s)
      | Some (Some i) \<Rightarrow> Inr (take i s, drop (Suc i) s))"

definition validOptionalPort :: "string \<Rightarrow> bool" where
  "validOptionalPort p \<longleftrightarrow> p = [] \<or> hd p = CHR '':'' \<and> list_all is_digit (tl p)"

text \<open>Percent decoding. In a host only bytes outside ASCII may be escaped (and the percent sign
  itself), and only the characters of a host may appear.\<close>

definition host_char :: "char \<Rightarrow> bool" where
  "host_char c \<longleftrightarrow> 128 \<le> code c \<or> is_alpha c \<or> is_digit c \<or> c \<in> set ''-_.~!$&()*+,;=:[]<>'' \<or>
     code c = 39 \<or> code c = 34"

fun unescape :: "bool \<Rightarrow> string \<Rightarrow> string option" where
  "unescape host [] = Some []"
| "unescape host (c # cs) =
     (if c = CHR ''%'' then
        (case cs of
           h # l # rest \<Rightarrow>
             (case (hexval h, hexval l) of
                (Some a, Some b) \<Rightarrow>
                  if host \<and> a < 8 \<and> [h, l] \<noteq> ''25'' then None
                  else map_option ((#) (chr (a * 16 + b))) (unescape host rest)
              | _ \<Rightarrow> None)
         | _ \<Rightarrow> None)
      else if host \<and> \<not> host_char c then None
      else map_option ((#) c) (unescape host cs))"

definition parseHost :: "string \<Rightarrow> go_error + string" where
  "parseHost h =
     (let port_ok =
        (if HasPrefix h ''['' then
           (case cut_last (CHR '']'') h of None \<Rightarrow> False | Some (_, p) \<Rightarrow> validOptionalPort p)
         else (case cut_last (CHR '':'') h of None \<Rightarrow> True | Some (_, p) \<Rightarrow> list_all is_digit p)) in
      if \<not> port_ok then Inl (Errorf ''invalid port after host'')
      else (case unescape True h of None \<Rightarrow> Inl (Errorf ''invalid URL escape'') | Some h' \<Rightarrow> Inr h'))"

definition userinfo_char :: "char \<Rightarrow> bool" where
  "userinfo_char c \<longleftrightarrow> is_alpha c \<or> is_digit c \<or> c \<in> set ''-._:~!$&()*+,;=%@'' \<or> code c = 39"

definition parseAuthority :: "string \<Rightarrow> go_error + string option \<times> string" where
  "parseAuthority a =
     (case cut_last (CHR ''@'') a of
        None \<Rightarrow> (case parseHost a of Inl e \<Rightarrow> Inl e | Inr h \<Rightarrow> Inr (None, h))
      | Some (u, h) \<Rightarrow>
          (case parseHost h of
             Inl e \<Rightarrow> Inl e
           | Inr h' \<Rightarrow>
               if \<not> list_all userinfo_char u then Inl (Errorf ''net/url: invalid userinfo'')
               else (case unescape False u of
                       None \<Rightarrow> Inl (Errorf ''invalid URL escape'')
                     | Some u' \<Rightarrow> Inr (Some u', h'))))"

text \<open>Percent encoding of a path, with capital digits.\<close>

definition path_char :: "char \<Rightarrow> bool" where
  "path_char c \<longleftrightarrow> is_alpha c \<or> is_digit c \<or> c \<in> set ''-_.~$&+,/:;=@''"

definition hexDigit :: "nat \<Rightarrow> char" where
  "hexDigit n = (if n < 10 then chr (48 + n) else chr (55 + n))"

definition escape_path :: "string \<Rightarrow> string" where
  "escape_path s = concat (map (\<lambda>c. if path_char c then [c]
     else [CHR ''%'', hexDigit (code c div 16), hexDigit (code c mod 16)]) s)"

text \<open>\<^verbatim>\<open>parse\<close>: \<open>req\<close> tells a request target from a reference; \<open>parse_rest\<close> works on what follows
  the scheme, with the query cut off.\<close>

definition parse_rest :: "bool \<Rightarrow> string \<Rightarrow> string \<Rightarrow> string \<Rightarrow> bool \<Rightarrow> go_error + URL" where
  "parse_rest req sch rest q fq =
     (let u = \<lparr>Scheme = sch, Opaque = [], User = None, Host = [], Path = [], RawPath = [], RawQuery = q,
               ForceQuery = fq\<rparr> in
      if \<not> HasPrefix rest ''/'' \<and> sch \<noteq> [] then Inr (u\<lparr>Opaque := rest\<rparr>)
      else if \<not> HasPrefix rest ''/'' \<and> req then Inl (Errorf ''invalid URI for request'')
      else if \<not> HasPrefix rest ''/'' \<and> CHR '':'' \<in> set (fst (cut (CHR ''/'') rest))
      then Inl (Errorf ''first path segment in URL cannot contain colon'')
      else
        let auth = (sch \<noteq> [] \<or> \<not> req \<and> \<not> HasPrefix rest ''///'') \<and> HasPrefix rest ''//'';
            a = takeWhile (\<lambda>c. c \<noteq> CHR ''/'') (drop 2 rest);
            p = (if auth then drop (length a + 2) rest else rest) in
        case (if auth then parseAuthority a else Inr (None, [])) of
          Inl e \<Rightarrow> Inl e
        | Inr (us, h) \<Rightarrow>
            (case unescape False p of
               None \<Rightarrow> Inl (Errorf ''invalid URL escape'')
             | Some p' \<Rightarrow> Inr (u\<lparr>User := us, Host := h, Path := p',
                          RawPath := (if escape_path p' = p then [] else p)\<rparr>)))"

definition parse_url :: "bool \<Rightarrow> string \<Rightarrow> go_error + URL" where
  "parse_url req s =
     (if list_ex (\<lambda>c. code c < 32 \<or> code c = 127) s then Inl (Errorf ''invalid control character in URL'')
      else if s = [] \<and> req then Inl (Errorf ''empty url'')
      else if s = ''*'' then
        Inr \<lparr>Scheme = [], Opaque = [], User = None, Host = [], Path = ''*'', RawPath = [], RawQuery = [],
             ForceQuery = False\<rparr>
      else (case getScheme s of
              Inl e \<Rightarrow> Inl e
            | Inr (sch, rest) \<Rightarrow>
                parse_rest req (map lower sch) (fst (cut (CHR ''?'') rest)) (snd (cut (CHR ''?'') rest))
                  (CHR ''?'' \<in> set rest \<and> snd (cut (CHR ''?'') rest) = [])))"

definition ParseURL :: "string \<Rightarrow> go_error + URL" where
  "ParseURL s = parse_url False (fst (cut (CHR ''#'') s))"

definition ParseRequestURI :: "string \<Rightarrow> go_error + URL" where
  "ParseRequestURI s = parse_url True s"

text \<open>The path as it is sent: as it was written if that encodes the same path.\<close>

definition validEncoded :: "string \<Rightarrow> bool" where
  "validEncoded s \<longleftrightarrow> list_all (\<lambda>c. path_char c \<or> c \<in> set ''!()*[]%'' \<or> code c = 39) s"

definition EscapedPath :: "URL \<Rightarrow> string" where
  "EscapedPath u =
     (if RawPath u \<noteq> [] \<and> validEncoded (RawPath u) \<and> unescape False (RawPath u) = Some (Path u)
      then RawPath u else if Path u = ''*'' then ''*'' else escape_path (Path u))"

definition RequestURI :: "URL \<Rightarrow> string" where
  "RequestURI u =
     (let r = (if Opaque u = [] then (if EscapedPath u = [] then ''/'' else EscapedPath u)
               else if HasPrefix (Opaque u) ''//'' then Scheme u @ '':'' @ Opaque u else Opaque u) in
      if ForceQuery u \<or> RawQuery u \<noteq> [] then r @ ''?'' @ RawQuery u else r)"

definition split_port :: "string \<Rightarrow> string \<times> string" where
  "split_port hp =
     (case cut_last (CHR '':'') hp of
        Some (h, p) \<Rightarrow> if list_all is_digit p then (h, p) else (hp, [])
      | None \<Rightarrow> (hp, []))"

definition unbracket :: "string \<Rightarrow> string" where
  "unbracket h = (if HasPrefix h ''['' \<and> last h = CHR '']'' then butlast (tl h) else h)"

definition Hostname :: "URL \<Rightarrow> string" where
  "Hostname u = unbracket (fst (split_port (Host u)))"

definition PortOf :: "URL \<Rightarrow> string" where
  "PortOf u = snd (split_port (Host u))"

subsection \<open>Message heads\<close>

text \<open>A line ends with a line feed, with an optional carriage return before it.\<close>

definition read_line :: "byte list \<Rightarrow> (string \<times> byte list) option" where
  "read_line bs =
     (if 10 \<in> set bs then
        (let l = takeWhile (\<lambda>b. b \<noteq> 10) bs in
         Some (string_of (if l \<noteq> [] \<and> last l = 13 then butlast l else l), drop (length l + 1) bs))
      else None)"

definition blank :: "char \<Rightarrow> bool" where
  "blank c \<longleftrightarrow> code c = 32 \<or> code c = 9"

definition trim_blank :: "string \<Rightarrow> string" where
  "trim_blank s = rev (dropWhile blank (rev (dropWhile blank s)))"

lemma read_line_shorter: "read_line bs = Some (l, bs') \<Longrightarrow> length bs' < length bs"
  by (cases bs) (auto simp: read_line_def Let_def split: if_splits)

lemma read_line_exact:
  "10 \<notin> set (bytes_of l) \<Longrightarrow> read_line (bytes_of l @ [13, 10] @ rest) = Some (l, rest)"
proof -
  assume l: "10 \<notin> set (bytes_of l)"
  have "takeWhile (\<lambda>b. b \<noteq> 10) (bytes_of l @ [13, 10] @ rest) = bytes_of l @ [13]"
    using l by (simp add: takeWhile_append)
  then show ?thesis by (simp add: read_line_def)
qed

text \<open>A header line goes on over the following lines that start with a blank.\<close>

function continued :: "string \<Rightarrow> byte list \<Rightarrow> string \<times> byte list" where
  "continued acc bs =
     (if bs \<noteq> [] \<and> hd bs \<in> {32, 9} then
        (case read_line (dropWhile (\<lambda>b. b \<in> {32, 9}) bs) of
           None \<Rightarrow> (acc, dropWhile (\<lambda>b. b \<in> {32, 9}) bs)
         | Some (l, rest) \<Rightarrow> continued (acc @ '' '' @ trim_blank l) rest)
      else (acc, bs))"
  by pat_completeness auto
termination
  by (relation "measure (\<lambda>(acc, bs). length bs)")
     (auto dest!: read_line_shorter intro: less_le_trans [OF _ length_dropWhile_le])

declare continued.simps [simp del]

lemma continued_le: "length (snd (continued acc bs)) \<le> length bs"
proof (induction acc bs rule: continued.induct)
  case (1 acc bs)
  show ?case
  proof (cases "bs \<noteq> [] \<and> hd bs \<in> {32, 9}")
    case True
    note le = length_dropWhile_le [of "\<lambda>b. b \<in> {32, 9}" bs]
    show ?thesis
    proof (cases "read_line (dropWhile (\<lambda>b. b \<in> {32, 9}) bs)")
      case None
      with True le show ?thesis by (subst continued.simps) simp
    next
      case (Some p)
      then obtain l rest where p: "read_line (dropWhile (\<lambda>b. b \<in> {32, 9}) bs) = Some (l, rest)" by (cases p) auto
      with 1 [OF True p refl] True read_line_shorter [OF p] le show ?thesis
        by (subst continued.simps) (simp del: dropWhile.simps)
    qed
  next
    case False
    then show ?thesis by (subst continued.simps) auto
  qed
qed

lemma continued_none: "bs = [] \<or> hd bs \<notin> {32, 9} \<Longrightarrow> continued acc bs = (acc, bs)"
  by (subst continued.simps) auto

definition value_char :: "char \<Rightarrow> bool" where
  "value_char c \<longleftrightarrow> code c = 9 \<or> 32 \<le> code c \<and> code c \<noteq> 127"

function mime :: "header \<Rightarrow> byte list \<Rightarrow> go_error + header \<times> byte list" where
  "mime h bs =
     (case read_line bs of
        None \<Rightarrow> Inl UnexpectedEOF
      | Some (l, rest) \<Rightarrow>
          if l = [] then Inr (h, rest)
          else if CHR '':'' \<notin> set l then Inl (Errorf ''malformed MIME header: missing colon'')
          else
            let kv = fst (continued (trim_blank l) rest);
                k = fst (cut (CHR '':'') kv);
                v = snd (cut (CHR '':'') kv) in
            if \<not> list_all (\<lambda>c. is_token c \<or> c = CHR '' '') k \<or> \<not> list_all value_char v
            then Inl (Errorf ''malformed MIME header line'')
            else mime (if k = [] then h else AddHeader (CanonicalHeaderKey k) (dropWhile blank v) h)
                   (snd (continued (trim_blank l) rest)))"
  by pat_completeness auto
termination
  by (relation "measure (\<lambda>(h, bs). length bs)")
     (auto dest!: read_line_shorter intro: le_less_trans [OF continued_le])

declare mime.simps [simp del]

definition ReadMIMEHeader :: "byte list \<Rightarrow> go_error + header \<times> byte list" where
  "ReadMIMEHeader bs =
     (if bs \<noteq> [] \<and> hd bs \<in> {32, 9} then Inl (Errorf ''malformed MIME header initial line'') else mime [] bs)"

definition ParseHTTPVersion :: "string \<Rightarrow> (nat \<times> nat) option" where
  "ParseHTTPVersion s =
     (if length s = 8 \<and> HasPrefix s ''HTTP/'' \<and> is_digit (s ! 5) \<and> s ! 6 = CHR ''.'' \<and> is_digit (s ! 7)
      then Some (code (s ! 5) - 48, code (s ! 7) - 48) else None)"

text \<open>The length of a body: at most one transfer encoding, which is chunked, or content lengths
  that agree. Trailers and the body itself are left to whoever reads it.\<close>

definition transfer_ok :: "nat \<times> nat \<Rightarrow> header \<Rightarrow> bool" where
  "transfer_ok ver h \<longleftrightarrow>
     (case map_of h ''Transfer-Encoding'' of
        Some vs \<Rightarrow>
          (if (fst ver > 1 \<or> fst ver = 1 \<and> snd ver \<ge> 1) then length vs = 1 \<and> EqualFold (hd vs) ''chunked''
           else True)
      | None \<Rightarrow>
          (case map_of h ''Content-Length'' of
             None \<Rightarrow> True
           | Some vs \<Rightarrow> list_all (\<lambda>v. trim_blank v = trim_blank (hd vs)) vs \<and>
               snd (ParseUint 63 (trim_blank (hd vs))) = None))"

record request =
  rMethod :: string
  rURL :: URL
  rVersion :: "nat \<times> nat"
  rHeader :: header
  rHost :: string

definition request_url :: "string \<Rightarrow> string \<Rightarrow> go_error + URL" where
  "request_url meth uri =
     (if meth = ''CONNECT'' \<and> \<not> HasPrefix uri ''/''
      then map_sum id (\<lambda>u. u\<lparr>Scheme := []\<rparr>) (ParseRequestURI (''http://'' @ uri))
      else ParseRequestURI uri)"

definition ReadRequest :: "byte list \<Rightarrow> go_error + request \<times> byte list" where
  "ReadRequest bs =
     (case read_line bs of
        None \<Rightarrow> Inl (if bs = [] then EOF else UnexpectedEOF)
      | Some (l, rest) \<Rightarrow>
          let meth = fst (cut (CHR '' '') l); r = snd (cut (CHR '' '') l);
              uri = fst (cut (CHR '' '') r); proto = snd (cut (CHR '' '') r) in
          if CHR '' '' \<notin> set l \<or> CHR '' '' \<notin> set r then Inl (Errorf ''malformed HTTP request'')
          else if meth = [] \<or> \<not> list_all is_token meth then Inl (Errorf ''invalid method'')
          else case ParseHTTPVersion proto of
            None \<Rightarrow> Inl (Errorf ''malformed HTTP version'')
          | Some ver \<Rightarrow>
              (case request_url meth uri of
                 Inl e \<Rightarrow> Inl e
               | Inr u \<Rightarrow>
                   (case ReadMIMEHeader rest of
                      Inl e \<Rightarrow> Inl e
                    | Inr (h, rest') \<Rightarrow>
                        if (case map_of h ''Host'' of Some vs \<Rightarrow> length vs > 1 | None \<Rightarrow> False)
                        then Inl (Errorf ''too many Host headers'')
                        else if \<not> transfer_ok ver h then Inl (Errorf ''bad Content-Length'')
                        else Inr (\<lparr>rMethod = meth, rURL = u, rVersion = ver,
                                   rHeader = AList.delete ''Host'' h,
                                   rHost = (if Host u \<noteq> [] then Host u else Get h ''Host'')\<rparr>, rest'))))"

text \<open>\<^verbatim>\<open>strconv.Atoi\<close> as far as it gives a number that is not negative.\<close>

definition Atoi :: "string \<Rightarrow> nat option" where
  "Atoi s =
     (let d = (if s \<noteq> [] \<and> hd s \<in> {CHR ''+'', CHR ''-''} then tl s else s) in
      case ParseUint 63 d of
        (n, None) \<Rightarrow> if HasPrefix s ''-'' \<and> n > 0 then None else Some n
      | (_, Some _) \<Rightarrow> None)"

record response =
  Status :: string
  StatusCode :: nat
  respHeader :: header

definition ReadResponse :: "byte list \<Rightarrow> go_error + response \<times> byte list" where
  "ReadResponse bs =
     (case read_line bs of
        None \<Rightarrow> Inl UnexpectedEOF
      | Some (l, rest) \<Rightarrow>
          let proto = fst (cut (CHR '' '') l);
              status = dropWhile (\<lambda>c. c = CHR '' '') (snd (cut (CHR '' '') l));
              digits = fst (cut (CHR '' '') status) in
          if CHR '' '' \<notin> set l then Inl (Errorf ''malformed HTTP response'')
          else if length digits \<noteq> 3 \<or> Atoi digits = None
          then Inl (Errorf ''malformed HTTP status code'')
          else if ParseHTTPVersion proto = None then Inl (Errorf ''malformed HTTP version'')
          else case ReadMIMEHeader rest of
            Inl e \<Rightarrow> Inl e
          | Inr (h, rest') \<Rightarrow>
              if \<not> transfer_ok (the (ParseHTTPVersion proto)) h then Inl (Errorf ''bad Content-Length'')
              else Inr (\<lparr>Status = status, StatusCode = the (Atoi digits), respHeader = h\<rparr>, rest'))"

subsection \<open>Heads written line by line are read back\<close>

definition head_bytes :: "(string \<times> string) list \<Rightarrow> byte list" where
  "head_bytes kvs = concat (map (\<lambda>(k, v). bytes_of (k @ '': '' @ v) @ [13, 10]) kvs) @ [13, 10]"

definition field_ok :: "string \<times> string \<Rightarrow> bool" where
  "field_ok kv \<longleftrightarrow> (case kv of (k, v) \<Rightarrow> k \<noteq> [] \<and> list_all is_token k \<and> v \<noteq> [] \<and>
     \<not> blank (hd v) \<and> \<not> blank (last v) \<and> list_all value_char v)"

lemma in_bytes_of: "b \<in> set (bytes_of s) \<Longrightarrow> chr (unat b) \<in> set s"
proof -
  assume "b \<in> set (bytes_of s)"
  then have "chr (unat b) \<in> set (string_of (bytes_of s))" by (auto simp: string_of_def)
  then show ?thesis by (simp only: string_of_bytes_of)
qed

lemma no_line_feed: "(\<And>c. c \<in> set s \<Longrightarrow> code c \<noteq> 10) \<Longrightarrow> 10 \<notin> set (bytes_of s)"
proof
  assume a: "\<And>c. c \<in> set s \<Longrightarrow> code c \<noteq> 10" and "10 \<in> set (bytes_of s)"
  then have "chr 10 \<in> set s" using in_bytes_of by fastforce
  from a [OF this] show False by simp
qed

lemma token_char: "is_token c \<Longrightarrow> 32 < code c \<and> code c < 127 \<and> code c \<noteq> 58"
  by (auto simp: is_token_def)

lemma trim_blank_id: "s \<noteq> [] \<Longrightarrow> \<not> blank (hd s) \<Longrightarrow> \<not> blank (last s) \<Longrightarrow> trim_blank s = s"
proof -
  assume s: "s \<noteq> []" "\<not> blank (hd s)" "\<not> blank (last s)"
  have "dropWhile blank s = s" using s by (cases s) auto
  moreover have "dropWhile blank (rev s) = rev s"
    using s by (cases "rev s") (auto simp: last_rev hd_rev [symmetric])
  ultimately show ?thesis by (simp add: trim_blank_def)
qed

lemma cut_append: "c \<notin> set a \<Longrightarrow> cut c (a @ c # b) = (a, b)"
  unfolding cut_def by (induction a) auto

lemma AddHeader_new: "map_of h k = None \<Longrightarrow> map_of (AddHeader k v h) = (map_of h)(k \<mapsto> [v])"
  by (simp add: AddHeader_def update_conv')

fun header_of :: "(string \<times> string) list \<Rightarrow> header \<Rightarrow> header" where
  "header_of [] h = h"
| "header_of ((k, v) # kvs) h = header_of kvs (AddHeader (CanonicalHeaderKey k) v h)"

lemma mime_head_bytes:
  "list_all field_ok kvs \<Longrightarrow> mime h (head_bytes kvs @ rest) = Inr (header_of kvs h, rest)"
proof (induction kvs arbitrary: h)
  case Nil
  have "read_line ([13, 10] @ rest) = Some ([], rest)" using read_line_exact [of "[]" rest] by simp
  then show ?case by (subst mime.simps) (simp add: head_bytes_def)
next
  case (Cons kv kvs)
  obtain k v where kv: "kv = (k, v)" by (cases kv)
  let ?l = "k @ '': '' @ v" and ?t = "head_bytes kvs @ rest"
  have k: "k \<noteq> []" "list_all is_token k" and v: "v \<noteq> []" "\<not> blank (hd v)" "\<not> blank (last v)" "list_all value_char v"
    using Cons.prems kv by (auto simp: field_ok_def)
  have kc: "c \<in> set k \<Longrightarrow> 32 < code c \<and> code c < 127 \<and> code c \<noteq> 58" for c
    using k(2) token_char by (auto simp: list_all_iff)
  have vc: "c \<in> set v \<Longrightarrow> code c \<noteq> 10" for c using v(4) by (auto simp: list_all_iff value_char_def)
  have "10 \<notin> set (bytes_of ?l)"
    by (rule no_line_feed) (use kc vc in force)
  then have rl: "read_line (head_bytes (kv # kvs) @ rest) = Some (?l, ?t)"
    using read_line_exact [of ?l ?t] by (simp add: head_bytes_def kv)
  have "trim_blank ?l = ?l" using k v kc [OF hd_in_set [OF k(1)]] by (intro trim_blank_id) (auto simp: blank_def)
  moreover have "continued ?l ?t = (?l, ?t)"
  proof (rule continued_none)
    show "?t = [] \<or> hd ?t \<notin> {32, 9}"
    proof (cases kvs)
      case (Cons kv' kvs')
      then obtain c k' v' where kv': "kv' = (c # k', v')" "is_token c"
        using Cons.prems by (cases kv') (auto simp: field_ok_def neq_Nil_conv)
      have "unat (of_nat (code c) :: byte) = code c" using token_char [OF kv'(2)]
        by (simp add: unat_of_nat)
      then have "(of_nat (code c) :: byte) \<notin> {32, 9}" using token_char [OF kv'(2)] by auto
      then show ?thesis using Cons kv' by (simp add: head_bytes_def bytes_of_def)
    qed (simp add: head_bytes_def)
  qed
  moreover have "cut (CHR '':'') ?l = (k, '' '' @ v)"
    using cut_append [of "CHR '':''" k "'' '' @ v"] kc [of "CHR '':''"] by auto
  moreover have "list_all (\<lambda>c. is_token c \<or> c = CHR '' '') k" using k(2) by (auto simp: list_all_iff)
  moreover have "list_all value_char ('' '' @ v)" using v(4) by (auto simp: value_char_def)
  moreover have "dropWhile blank ('' '' @ v) = v" using v by (cases v) (auto simp: blank_def)
  moreover have "CHR '':'' \<in> set ?l" "?l \<noteq> []" by auto
  ultimately have "mime h (head_bytes (kv # kvs) @ rest) = mime (AddHeader (CanonicalHeaderKey k) v h) ?t"
    using rl k(1) by (subst mime.simps) (simp add: Let_def)
  also have "\<dots> = Inr (header_of (kv # kvs) h, rest)" using Cons kv by simp
  finally show ?case .
qed

text \<open>The values of a field, in the order of its lines.\<close>

definition hvals :: "header \<Rightarrow> string \<Rightarrow> string list" where
  "hvals h k = (case map_of h k of None \<Rightarrow> [] | Some vs \<Rightarrow> vs)"

lemma Get_hvals: "Get h k = (case hvals h (CanonicalHeaderKey k) of [] \<Rightarrow> [] | v # _ \<Rightarrow> v)"
  by (simp add: Get_def hvals_def split: option.split list.split)

lemma hvals_AddHeader: "hvals (AddHeader k v h) k' = hvals h k' @ (if k = k' then [v] else [])"
  by (auto simp: hvals_def AddHeader_def update_conv' split: option.split)

lemma hvals_header_of:
  "hvals (header_of kvs h) k = hvals h k @ map snd (filter (\<lambda>kv. CanonicalHeaderKey (fst kv) = k) kvs)"
  by (induction kvs h rule: header_of.induct) (simp_all add: hvals_AddHeader)

lemma hvals_delete: "hvals (AList.delete k h) k' = (if k' = k then [] else hvals h k')"
  by (simp add: hvals_def delete_conv')

lemma map_of_header_of_None:
  "k \<notin> (CanonicalHeaderKey \<circ> fst) ` set kvs \<Longrightarrow> map_of h k = None \<Longrightarrow> map_of (header_of kvs h) k = None"
  by (induction kvs h rule: header_of.induct) (auto simp: AddHeader_def update_conv')

lemma transfer_ok_plain:
  "''Transfer-Encoding'' \<notin> (CanonicalHeaderKey \<circ> fst) ` set kvs \<Longrightarrow>
   ''Content-Length'' \<notin> (CanonicalHeaderKey \<circ> fst) ` set kvs \<Longrightarrow> transfer_ok ver (header_of kvs [])"
  by (simp add: transfer_ok_def map_of_header_of_None)

lemma bytes_of_append: "bytes_of (a @ b) = bytes_of a @ bytes_of b"
  by (simp add: bytes_of_def)

lemma bytes_of_head:
  "bytes_of (concat (map (\<lambda>(k, v). k @ '': '' @ v @ [chr 13, chr 10]) kvs) @ [chr 13, chr 10]) = head_bytes kvs"
  by (induction kvs) (auto simp: head_bytes_def bytes_of_def)

lemma ReadMIMEHeader_head_bytes:
  assumes "list_all field_ok kvs"
  shows "ReadMIMEHeader (head_bytes kvs @ rest) = Inr (header_of kvs [], rest)"
proof -
  have "hd (head_bytes kvs @ rest) \<notin> {32, 9}"
  proof (cases kvs)
    case (Cons kv kvs')
    then obtain c k v where kv: "kv = (c # k, v)" "is_token c"
      using assms by (cases kv) (auto simp: field_ok_def neq_Nil_conv)
    have "unat (of_nat (code c) :: byte) = code c" using token_char [OF kv(2)] by (simp add: unat_of_nat)
    then have "(of_nat (code c) :: byte) \<notin> {32, 9}" using token_char [OF kv(2)] by auto
    then show ?thesis using Cons kv by (simp add: head_bytes_def bytes_of_def)
  qed (simp add: head_bytes_def)
  then show ?thesis using assms by (simp add: ReadMIMEHeader_def mime_head_bytes)
qed

text \<open>A path of plain characters is a request target that stands for itself.\<close>

definition plain_path :: "string \<Rightarrow> bool" where
  "plain_path p \<longleftrightarrow> HasPrefix p ''/'' \<and> list_all path_char p"

definition path_url :: "string \<Rightarrow> URL" where
  "path_url p = \<lparr>Scheme = [], Opaque = [], User = None, Host = [], Path = p, RawPath = [], RawQuery = [],
     ForceQuery = False\<rparr>"

lemma escape_path_plain: "list_all path_char p \<Longrightarrow> escape_path p = p"
  by (induction p) (auto simp: escape_path_def)

lemma path_char_code: "path_char c \<Longrightarrow> 32 < code c \<and> code c < 127 \<and> code c \<noteq> 37 \<and> code c \<noteq> 63 \<and> code c \<noteq> 35"
  by (auto simp: path_char_def)

lemma unescape_plain: "list_all path_char p \<Longrightarrow> unescape False p = Some p"
  by (induction p) (auto dest: path_char_code)

lemma cut_absent: "c \<notin> set s \<Longrightarrow> cut c s = (s, [])"
  unfolding cut_def by (induction s) auto

lemma ParseRequestURI_plain: "plain_path p \<Longrightarrow> ParseRequestURI p = Inr (path_url p)"
proof -
  assume a: "plain_path p"
  then obtain q where p: "p = CHR ''/'' # q" by (cases p) (auto simp: plain_path_def HasPrefix_def)
  have pc: "list_all path_char p" using a by (simp add: plain_path_def)
  then have "\<not> list_ex (\<lambda>c. code c < 32 \<or> code c = 127) p"
    by (fastforce simp: list_all_iff list_ex_iff dest: path_char_code)
  moreover have "cut (CHR ''?'') p = (p, [])" "CHR ''?'' \<notin> set p"
    using pc by (auto simp: list_all_iff intro!: cut_absent dest!: bspec path_char_code)
  moreover have "getScheme p = Inr ([], p)" by (simp add: getScheme_def p)
  ultimately show ?thesis using pc p
    by (simp add: ParseRequestURI_def parse_url_def parse_rest_def Let_def unescape_plain escape_path_plain
        HasPrefix_def path_url_def)
qed

end
