(* ===== verification/Wst_Upgrade.thy ===== *)
theory Wst_Upgrade
  imports Wst_Conn Go_Http
begin

text \<open>
  The opening handshake of \<^verbatim>\<open>pkg/wst/upgrade.go\<close>: \<^verbatim>\<open>Upgrade\<close> on the server, \<^verbatim>\<open>Dial\<close> on the
  client, and the accept key that ties the two together, with SHA-1 written out.

  What the operating system and \<^verbatim>\<open>crypto/tls\<close> answer (the dialled connection, the TLS
  handshake, the hijacked connection) and the random bytes of the nonce are arguments.
\<close>

subsection \<open>SHA-1\<close>

fun chunks :: "nat \<Rightarrow> 'a list \<Rightarrow> 'a list list" where
  "chunks n xs = (if xs = [] \<or> n = 0 then [] else take n xs # chunks n (drop n xs))"

declare chunks.simps [simp del]

fun expand_schedule :: "nat \<Rightarrow> u32 list \<Rightarrow> u32 list" where
  "expand_schedule 0 ws = ws"
| "expand_schedule (Suc n) ws =
     (let l = length ws in
      expand_schedule n
        (ws @ [word_rotl 1 (ws ! (l - 3) XOR ws ! (l - 8) XOR ws ! (l - 14) XOR ws ! (l - 16))]))"

definition sha1_f :: "nat \<Rightarrow> u32 \<Rightarrow> u32 \<Rightarrow> u32 \<Rightarrow> u32" where
  "sha1_f t b c d =
     (if t < 20 then (b AND c) OR (NOT b AND d)
      else if t < 40 then b XOR c XOR d
      else if t < 60 then (b AND c) OR (b AND d) OR (c AND d)
      else b XOR c XOR d)"

definition sha1_k :: "nat \<Rightarrow> u32" where
  "sha1_k t = (if t < 20 then 0x5A827999 else if t < 40 then 0x6ED9EBA1
     else if t < 60 then 0x8F1BBCDC else 0xCA62C1D6)"

type_synonym sha1_state = "u32 \<times> u32 \<times> u32 \<times> u32 \<times> u32"

fun sha1_rounds :: "nat \<Rightarrow> u32 list \<Rightarrow> sha1_state \<Rightarrow> sha1_state" where
  "sha1_rounds t [] h = h"
| "sha1_rounds t (w # ws) (a, b, c, d, e) =
     sha1_rounds (Suc t) ws
       (word_rotl 5 a + sha1_f t b c d + e + w + sha1_k t, a, word_rotl 30 b, c, d)"

definition sha1_block :: "byte list \<Rightarrow> sha1_state \<Rightarrow> sha1_state" where
  "sha1_block blk h =
     (case (h, sha1_rounds 0 (expand_schedule 64 (map (\<lambda>bs. of_nat (be_dec bs)) (chunks 4 blk))) h) of
        ((a, b, c, d, e), (a', b', c', d', e')) \<Rightarrow> (a + a', b + b', c + c', d + d', e + e'))"

definition sha1 :: "byte list \<Rightarrow> byte list" where
  "sha1 bs =
     (let p = bs @ [0x80] @ replicate ((119 - length bs mod 64) mod 64) 0 @ be_enc 8 (8 * length bs) in
      case fold sha1_block (chunks 64 p) (0x67452301, 0xEFCDAB89, 0x98BADCFE, 0x10325476, 0xC3D2E1F0) of
        (a, b, c, d, e) \<Rightarrow> concat (map (\<lambda>w. be_enc 4 (unat w)) [a, b, c, d, e]))"

subsection \<open>Keys and tokens\<close>

definition websocketGUID :: string where
  "websocketGUID = ''258EAFA5-E914-47DA-95CA-C5AB0DC85B11''"

definition generateNonce :: "byte list \<Rightarrow> string" where
  "generateNonce rand = EncodeToString rand"

definition generateAcceptKey :: "string \<Rightarrow> string" where
  "generateAcceptKey clientKey = EncodeToString (sha1 (bytes_of clientKey @ bytes_of websocketGUID))"

definition tokenContains :: "string \<Rightarrow> string \<Rightarrow> bool" where
  "tokenContains hdr token \<longleftrightarrow> list_ex (\<lambda>part. EqualFold (TrimSpace part) token) (Split (CHR '','') hdr)"

subsection \<open>The server's side\<close>

datatype upgrade_result = Upgraded Conn | UpgradeFailed go_error

abbreviation crlf :: string where
  "crlf \<equiv> [chr 13, chr 10]"

definition upgrade_response :: "string list \<Rightarrow> string \<Rightarrow> string" where
  "upgrade_response subs acceptKey =
     ''HTTP/1.1 101 Switching Protocols'' @ crlf @ ''Upgrade: websocket'' @ crlf @
     ''Connection: Upgrade'' @ crlf @ ''Sec-WebSocket-Accept: '' @ acceptKey @ crlf @
     (if subs = [] then [] else ''Sec-WebSocket-Protocol: '' @ hd subs @ crlf) @ crlf"

text \<open>\<open>hijack\<close> is what the response writer gives: the connection and the bytes of it that the
  server had already read into its buffer, or an error.\<close>

definition Upgrade :: "string list \<Rightarrow> request \<Rightarrow> go_error + conn \<times> byte list \<Rightarrow> upgrade_result" where
  "Upgrade subs r hijack =
     (let clientKey = Get (rHeader r) ''Sec-WebSocket-Key'' in
      if rMethod r \<noteq> ''GET'' then UpgradeFailed (Errorf ''websocket: method is not GET'')
      else if \<not> tokenContains (Get (rHeader r) ''Connection'') ''upgrade''
      then UpgradeFailed (Errorf ''websocket: connection header is not upgrade'')
      else if \<not> EqualFold (Get (rHeader r) ''Upgrade'') ''websocket''
      then UpgradeFailed (Errorf ''websocket: upgrade header is not websocket'')
      else if Get (rHeader r) ''Sec-WebSocket-Version'' \<noteq> ''13''
      then UpgradeFailed (Errorf ''websocket: unsupported websocket version'')
      else if clientKey = [] then UpgradeFailed (Errorf ''websocket: client key header is missing or empty'')
      else case hijack of
        Inl e \<Rightarrow> UpgradeFailed e
      | Inr (c, buffered) \<Rightarrow>
          (case then_w (bufWrite (new_bwriter (out c))
                          (bytes_of (upgrade_response subs (generateAcceptKey clientKey)))) Flush of
             (Some e, _) \<Rightarrow> UpgradeFailed e
           | (None, b) \<Rightarrow> Upgraded (NewConn (c\<lparr>out := bsink b\<rparr>) False)))"

subsection \<open>The client's side\<close>

datatype dial_result = Dialled Conn response | DialFailed go_error "response option"

definition secure :: "string \<Rightarrow> bool" where
  "secure sch \<longleftrightarrow> sch = ''wss'' \<or> sch = ''https''"

definition server_port :: "URL \<Rightarrow> string" where
  "server_port u = (if PortOf u \<noteq> [] then PortOf u else if secure (Scheme u) then ''443'' else ''80'')"

definition header_lines :: "header \<Rightarrow> (string \<times> string) list" where
  "header_lines h = concat (map (\<lambda>(k, vs). map (\<lambda>v. (k, v)) vs) h)"

definition dial_request :: "URL \<Rightarrow> header \<Rightarrow> string \<Rightarrow> string" where
  "dial_request u h nonce =
     ''GET '' @ RequestURI u @ '' HTTP/1.1'' @ crlf @ ''Host: '' @ Hostname u @ crlf @
     ''Upgrade: websocket'' @ crlf @ ''Connection: Upgrade'' @ crlf @
     ''Sec-WebSocket-Key: '' @ nonce @ crlf @ ''Sec-WebSocket-Version: 13'' @ crlf @
     concat (map (\<lambda>(k, v). k @ '': '' @ v @ crlf) (header_lines h)) @ crlf"

definition dial_handshake :: "URL \<Rightarrow> header \<Rightarrow> string \<Rightarrow> conn \<Rightarrow> dial_result" where
  "dial_handshake u h nonce c =
     (case Write (bytes_of (dial_request u h nonce)) c of
        (Inl e, _) \<Rightarrow> DialFailed e None
      | (Inr (), c1) \<Rightarrow>
          (case ReadResponse (inp c1) of
             Inl e \<Rightarrow> DialFailed (if e = UnexpectedEOF \<and> rend c1 \<noteq> EOF then rend c1 else e) None
           | Inr (resp, rest) \<Rightarrow>
               if StatusCode resp \<noteq> 101 then DialFailed (Errorf (''bad status: '' @ Status resp)) (Some resp)
               else if Get (respHeader resp) ''Sec-WebSocket-Accept'' \<noteq> generateAcceptKey nonce
               then DialFailed (Errorf ''invalid Sec-WebSocket-Accept'') (Some resp)
               else Dialled (NewConnWithReader (c1\<lparr>inp := []\<rparr>) True rest) resp))"

text \<open>\<open>netDial\<close> and \<open>tlsDial\<close> answer for the network and for the TLS handshake with a server name.\<close>

definition DialURL ::
  "(string \<Rightarrow> string \<Rightarrow> go_error + conn) \<Rightarrow> (string \<Rightarrow> conn \<Rightarrow> go_error + conn) \<Rightarrow> byte list \<Rightarrow>
   URL \<Rightarrow> header \<Rightarrow> dial_result" where
  "DialURL netDial tlsDial rand u h =
     (case netDial ''tcp'' (JoinHostPort (Hostname u) (server_port u)) of
        Inl e \<Rightarrow> DialFailed e None
      | Inr c \<Rightarrow>
          (case (if secure (Scheme u) then tlsDial (Hostname u) c else Inr c) of
             Inl e \<Rightarrow> DialFailed e None
           | Inr c1 \<Rightarrow> dial_handshake u h (generateNonce rand) c1))"

definition Dial ::
  "(string \<Rightarrow> string \<Rightarrow> go_error + conn) \<Rightarrow> (string \<Rightarrow> conn \<Rightarrow> go_error + conn) \<Rightarrow> byte list \<Rightarrow>
   string \<Rightarrow> header \<Rightarrow> dial_result" where
  "Dial netDial tlsDial rand uStr h =
     (case ParseURL uStr of Inl e \<Rightarrow> DialFailed e None | Inr u \<Rightarrow> DialURL netDial tlsDial rand u h)"

subsection \<open>The request is read as it was meant\<close>

definition dial_fields :: "URL \<Rightarrow> header \<Rightarrow> string \<Rightarrow> (string \<times> string) list" where
  "dial_fields u h nonce =
     [(''Host'', Hostname u), (''Upgrade'', ''websocket''), (''Connection'', ''Upgrade''),
      (''Sec-WebSocket-Key'', nonce), (''Sec-WebSocket-Version'', ''13'')] @ header_lines h"

text \<open>What a caller of \<^verbatim>\<open>Dial\<close> has to provide: a plain path, a host name that is a header value, and
  extra fields that are well formed and leave the framing of the message alone.\<close>

definition dial_ok :: "URL \<Rightarrow> header \<Rightarrow> bool" where
  "dial_ok u h \<longleftrightarrow> plain_path (Path u) \<and> Opaque u = [] \<and> RawPath u = [] \<and> RawQuery u = [] \<and> \<not> ForceQuery u \<and>
     field_ok (''Host'', Hostname u) \<and> list_all field_ok (header_lines h) \<and>
     list_all (\<lambda>(k, v). CanonicalHeaderKey k \<notin> {''Host'', ''Transfer-Encoding'', ''Content-Length''}) (header_lines h)"

definition dial_parsed :: "URL \<Rightarrow> header \<Rightarrow> string \<Rightarrow> request" where
  "dial_parsed u h nonce =
     \<lparr>rMethod = ''GET'', rURL = path_url (Path u), rVersion = (1, 1),
      rHeader = AList.delete ''Host'' (header_of (dial_fields u h nonce) []), rHost = Hostname u\<rparr>"

lemma RequestURI_plain: "dial_ok u h \<Longrightarrow> RequestURI u = Path u"
  unfolding dial_ok_def RequestURI_def EscapedPath_def Let_def
  by (auto simp: plain_path_def HasPrefix_def escape_path_plain)

lemma bytes_of_dial_request:
  "dial_ok u h \<Longrightarrow> bytes_of (dial_request u h nonce) =
     bytes_of (''GET '' @ Path u @ '' HTTP/1.1'') @ [13, 10] @ head_bytes (dial_fields u h nonce)"
proof -
  assume ok: "dial_ok u h"
  have "dial_request u h nonce = (''GET '' @ Path u @ '' HTTP/1.1'') @ crlf @
      concat (map (\<lambda>(k, v). k @ '': '' @ v @ crlf) (dial_fields u h nonce)) @ crlf"
    by (simp add: dial_request_def dial_fields_def RequestURI_plain [OF ok])
  then have "bytes_of (dial_request u h nonce) = bytes_of (''GET '' @ Path u @ '' HTTP/1.1'') @ bytes_of crlf @
      bytes_of (concat (map (\<lambda>(k, v). k @ '': '' @ v @ crlf) (dial_fields u h nonce)) @ crlf)"
    by (simp only: bytes_of_append append_assoc)
  moreover have "bytes_of crlf = [13, 10]" by (simp add: bytes_of_def)
  ultimately show ?thesis by (simp only: bytes_of_head)
qed

lemma canonical_names:
  "CanonicalHeaderKey ''Host'' = ''Host''" "CanonicalHeaderKey ''Upgrade'' = ''Upgrade''"
  "CanonicalHeaderKey ''Connection'' = ''Connection''"
  "CanonicalHeaderKey ''Sec-WebSocket-Key'' = ''Sec-Websocket-Key''"
  "CanonicalHeaderKey ''Sec-WebSocket-Version'' = ''Sec-Websocket-Version''"
  "CanonicalHeaderKey ''Sec-WebSocket-Accept'' = ''Sec-Websocket-Accept''"
  "CanonicalHeaderKey ''Sec-WebSocket-Protocol'' = ''Sec-Websocket-Protocol''"
  by (simp_all add: CanonicalHeaderKey_def is_token_def upper_def lower_def) code_simp+

lemma fixed_fields_ok:
  "field_ok (''Upgrade'', ''websocket'')" "field_ok (''Connection'', ''Upgrade'')"
  "field_ok (''Sec-WebSocket-Version'', ''13'')"
  by (simp_all add: field_ok_def is_token_def value_char_def blank_def)

lemma base64_field_ok:
  assumes "bs \<noteq> []" "list_all is_token k" "k \<noteq> []"
  shows "field_ok (k, EncodeToString bs)"
proof -
  have ne: "EncodeToString bs \<noteq> []" using assms by (simp add: EncodeToString_eq_Nil)
  note g = EncodeToString_plain [of _ bs]
  have "\<not> blank (hd (EncodeToString bs))" "\<not> blank (last (EncodeToString bs))"
    using g [OF hd_in_set [OF ne]] g [OF last_in_set [OF ne]] by (auto simp: blank_def)
  moreover have "list_all value_char (EncodeToString bs)"
    using g by (auto simp: list_all_iff value_char_def dest!: g)
  ultimately show ?thesis using ne assms by (simp add: field_ok_def)
qed

lemma dial_fields_ok:
  assumes "dial_ok u h" "rand \<noteq> []"
  shows "list_all field_ok (dial_fields u h (generateNonce rand))"
proof -
  have "field_ok (''Sec-WebSocket-Key'', generateNonce rand)"
    unfolding generateNonce_def by (rule base64_field_ok) (use assms in \<open>simp_all, code_simp?\<close>)
  then show ?thesis using assms fixed_fields_ok by (simp add: dial_fields_def dial_ok_def)
qed

lemma request_line_cuts:
  assumes "list_all path_char p"
  shows "cut (CHR '' '') (''GET '' @ p @ '' HTTP/1.1'') = (''GET'', p @ '' HTTP/1.1'')"
    "cut (CHR '' '') (p @ '' HTTP/1.1'') = (p, ''HTTP/1.1'')"
    "10 \<notin> set (bytes_of (''GET '' @ p @ '' HTTP/1.1''))"
proof -
  have pc: "c \<in> set p \<Longrightarrow> 32 < code c" for c using assms path_char_code by (auto simp: list_all_iff)
  then have "CHR '' '' \<notin> set p" by fastforce
  then show "cut (CHR '' '') (p @ '' HTTP/1.1'') = (p, ''HTTP/1.1'')" using cut_append [of "CHR '' ''" p] by simp
  show "cut (CHR '' '') (''GET '' @ p @ '' HTTP/1.1'') = (''GET'', p @ '' HTTP/1.1'')"
    using cut_append [of "CHR '' ''" "''GET''" "p @ '' HTTP/1.1''"] by simp
  show "10 \<notin> set (bytes_of (''GET '' @ p @ '' HTTP/1.1''))"
    by (rule no_line_feed) (use pc in force)
qed

lemma ReadRequest_dial:
  assumes "dial_ok u h" "rand \<noteq> []"
  defines "nonce \<equiv> generateNonce rand"
  shows "ReadRequest (bytes_of (dial_request u h nonce) @ rest) = Inr (dial_parsed u h nonce, rest)"
proof -
  let ?l = "''GET '' @ Path u @ '' HTTP/1.1''" and ?kvs = "dial_fields u h nonce"
  have p: "list_all path_char (Path u)" "plain_path (Path u)" using assms(1) by (simp_all add: dial_ok_def plain_path_def)
  have rl: "read_line (bytes_of (dial_request u h nonce) @ rest) = Some (?l, head_bytes ?kvs @ rest)"
    unfolding bytes_of_dial_request [OF assms(1)]
    using read_line_exact [OF request_line_cuts(3) [OF p(1)], of "head_bytes ?kvs @ rest"] by simp
  have hd: "ReadMIMEHeader (head_bytes ?kvs @ rest) = Inr (header_of ?kvs [], rest)"
    unfolding nonce_def by (intro ReadMIMEHeader_head_bytes dial_fields_ok assms)
  have u: "request_url ''GET'' (Path u) = Inr (path_url (Path u))"
    using p(2) by (simp add: request_url_def ParseRequestURI_plain)
  have free: "(CanonicalHeaderKey \<circ> fst) ` set (header_lines h) \<inter> {''Host'', ''Transfer-Encoding'', ''Content-Length''} = {}"
    using assms(1) by (auto simp: dial_ok_def list_all_iff)
  then have t: "transfer_ok (1, 1) (header_of ?kvs [])"
    by (intro transfer_ok_plain) (auto simp: dial_fields_def canonical_names)
  have "filter (\<lambda>kv. CanonicalHeaderKey (fst kv) = ''Host'') (header_lines h) = []"
    using assms(1) by (auto simp: filter_empty_conv dial_ok_def list_all_iff)
  then have hv: "hvals (header_of ?kvs []) ''Host'' = [Hostname u]"
    by (simp add: hvals_header_of hvals_AddHeader dial_fields_def canonical_names hvals_def [of "[]"])
  then have "\<not> (case map_of (header_of ?kvs []) ''Host'' of Some vs \<Rightarrow> length vs > 1 | None \<Rightarrow> False)"
    "Get (header_of ?kvs []) ''Host'' = Hostname u"
    by (auto simp: Get_hvals canonical_names) (auto simp: hvals_def split: option.splits)
  moreover have "ParseHTTPVersion ''HTTP/1.1'' = Some (1, 1)" "list_all is_token ''GET''" by code_simp+
  ultimately show ?thesis
    unfolding ReadRequest_def rl option.case prod.case Let_def request_line_cuts [OF p(1)]
    using hd u t by (simp add: request_line_cuts [OF p(1), simplified] dial_parsed_def path_url_def)
qed

lemma dial_parsed_header:
  "Get (rHeader (dial_parsed u h nonce)) ''Upgrade'' = ''websocket''"
  "Get (rHeader (dial_parsed u h nonce)) ''Connection'' = ''Upgrade''"
  "Get (rHeader (dial_parsed u h nonce)) ''Sec-WebSocket-Key'' = nonce"
  "Get (rHeader (dial_parsed u h nonce)) ''Sec-WebSocket-Version'' = ''13''"
  by (simp_all add: dial_parsed_def Get_hvals hvals_delete hvals_header_of hvals_AddHeader dial_fields_def canonical_names
      hvals_def [of "[]"])

lemma Upgrade_dial:
  assumes "nonce \<noteq> []" "limit (out c) = None"
  obtains s where "Upgrade subs (dial_parsed u h nonce) (Inr (c, buffered)) = Upgraded s"
    "rd s = inp c" "rdend s = rend c" "bw_ok (bufw s)" "masking s = False"
    "accepted (bufw s) = sent (out c) @ bytes_of (upgrade_response subs (generateAcceptKey nonce))"
proof -
  let ?r = "bytes_of (upgrade_response subs (generateAcceptKey nonce))"
  obtain b1 where b1: "bufWrite (new_bwriter (out c)) ?r = (None, b1)" "bw_ok b1" "accepted b1 = sent (out c) @ ?r"
    using bufWrite_ok [OF bw_ok_new [OF assms(2)], of ?r] by auto
  obtain b2 where b2: "Flush b1 = (None, b2)" "bw_ok b2" "bbuf b2 = []" "accepted b2 = accepted b1"
    using Flush_ok [OF b1(2)] by blast
  have "TrimSpace ''Upgrade'' = ''Upgrade''" by (rule TrimSpace_id) simp
  moreover have "fold_ascii ''Upgrade'' = map lower ''Upgrade''" by (rule fold_ascii_ascii) auto
  moreover have "map lower ''Upgrade'' = map lower ''upgrade''" by code_simp
  ultimately have "tokenContains ''Upgrade'' ''upgrade''"
    by (simp add: tokenContains_def EqualFold_def)
  moreover have "EqualFold ''websocket'' ''websocket''" by (rule EqualFold_refl) auto
  ultimately have "Upgrade subs (dial_parsed u h nonce) (Inr (c, buffered)) = Upgraded (NewConn (c\<lparr>out := bsink b2\<rparr>) False)"
    using assms(1) b1(1) b2(1) unfolding Upgrade_def dial_parsed_header Let_def
    by (simp add: dial_parsed_def)
  then show thesis
    by (rule that) (use b1 b2 in \<open>auto simp: NewConn_def NewConnWithReader_def bw_ok_def accepted_def new_bwriter_def\<close>)
qed

subsection \<open>The answer is accepted\<close>

definition upgrade_fields :: "string list \<Rightarrow> string \<Rightarrow> (string \<times> string) list" where
  "upgrade_fields subs key =
     [(''Upgrade'', ''websocket''), (''Connection'', ''Upgrade''), (''Sec-WebSocket-Accept'', key)] @
     (if subs = [] then [] else [(''Sec-WebSocket-Protocol'', hd subs)])"

lemma bytes_of_upgrade_response:
  "bytes_of (upgrade_response subs key) =
     bytes_of ''HTTP/1.1 101 Switching Protocols'' @ [13, 10] @ head_bytes (upgrade_fields subs key)"
proof -
  have "upgrade_response subs key = ''HTTP/1.1 101 Switching Protocols'' @ crlf @
      concat (map (\<lambda>(k, v). k @ '': '' @ v @ crlf) (upgrade_fields subs key)) @ crlf"
    by (simp add: upgrade_response_def upgrade_fields_def)
  then have "bytes_of (upgrade_response subs key) = bytes_of ''HTTP/1.1 101 Switching Protocols'' @ bytes_of crlf @
      bytes_of (concat (map (\<lambda>(k, v). k @ '': '' @ v @ crlf) (upgrade_fields subs key)) @ crlf)"
    by (simp only: bytes_of_append append_assoc)
  moreover have "bytes_of crlf = [13, 10]" by (simp add: bytes_of_def)
  ultimately show ?thesis by (simp only: bytes_of_head)
qed

lemma length_sha1: "length (sha1 bs) = 20"
  by (simp add: sha1_def Let_def split: prod.split)

lemma upgrade_fields_ok:
  assumes "subs = [] \<or> field_ok (''Sec-WebSocket-Protocol'', hd subs)"
  shows "list_all field_ok (upgrade_fields subs (generateAcceptKey nonce))"
proof -
  have "sha1 bs \<noteq> []" for bs using length_sha1 [of bs] by auto
  then have "field_ok (''Sec-WebSocket-Accept'', generateAcceptKey nonce)"
    unfolding generateAcceptKey_def by (rule base64_field_ok) (simp_all add: is_token_def)
  then show ?thesis using assms fixed_fields_ok by (auto simp: upgrade_fields_def)
qed

lemma ReadResponse_upgrade:
  assumes "subs = [] \<or> field_ok (''Sec-WebSocket-Protocol'', hd subs)"
  obtains resp where
    "ReadResponse (bytes_of (upgrade_response subs (generateAcceptKey nonce)) @ rest) = Inr (resp, rest)"
    "StatusCode resp = 101" "Get (respHeader resp) ''Sec-WebSocket-Accept'' = generateAcceptKey nonce"
proof -
  let ?l = "''HTTP/1.1 101 Switching Protocols''" and ?kvs = "upgrade_fields subs (generateAcceptKey nonce)"
  have "10 \<notin> set (bytes_of ?l)" by (rule no_line_feed) force
  from read_line_exact [OF this, of "head_bytes ?kvs @ rest"]
  have rl: "read_line (bytes_of (upgrade_response subs (generateAcceptKey nonce)) @ rest) =
      Some (?l, head_bytes ?kvs @ rest)"
    unfolding bytes_of_upgrade_response by simp
  have hd: "ReadMIMEHeader (head_bytes ?kvs @ rest) = Inr (header_of ?kvs [], rest)"
    by (intro ReadMIMEHeader_head_bytes upgrade_fields_ok assms)
  have t: "transfer_ok ver (header_of ?kvs [])" for ver
    by (intro transfer_ok_plain) (auto simp: upgrade_fields_def canonical_names)
  have c: "cut (CHR '' '') ?l = (''HTTP/1.1'', ''101 Switching Protocols'')"
    "cut (CHR '' '') ''101 Switching Protocols'' = (''101'', ''Switching Protocols'')"
    by (simp_all add: cut_def)
  have a: "Atoi ''101'' = Some 101" by (simp add: Atoi_def ParseUint_def Let_def HasPrefix_def)
  have v: "ParseHTTPVersion ''HTTP/1.1'' = Some (1, 1)" by code_simp
  have g: "Get (header_of ?kvs []) ''Sec-WebSocket-Accept'' = generateAcceptKey nonce"
    by (simp add: Get_hvals hvals_header_of hvals_AddHeader upgrade_fields_def canonical_names hvals_def [of "[]"])
  have "ReadResponse (bytes_of (upgrade_response subs (generateAcceptKey nonce)) @ rest) =
      Inr (\<lparr>Status = ''101 Switching Protocols'', StatusCode = 101, respHeader = header_of ?kvs []\<rparr>, rest)"
    unfolding ReadResponse_def rl option.case prod.case Let_def c fst_conv snd_conv
    using hd t c a v by simp
  from that [OF this] show thesis using g by simp
qed

lemma dial_handshake_accepts:
  assumes "subs = [] \<or> field_ok (''Sec-WebSocket-Protocol'', hd subs)" "limit (out cc) = None"
    and "inp cc = bytes_of (upgrade_response subs (generateAcceptKey nonce)) @ rest"
  obtains c resp where "dial_handshake u h nonce cc = Dialled c resp" "rd c = rest" "rdend c = rend cc" "masking c"
    "bw_ok (bufw c)" "accepted (bufw c) = sent (out cc) @ bytes_of (dial_request u h nonce)"
proof -
  define w where "w = bytes_of (upgrade_response subs (generateAcceptKey nonce))"
  obtain resp where r: "ReadResponse (w @ rest) = Inr (resp, rest)" "StatusCode resp = 101"
      "Get (respHeader resp) ''Sec-WebSocket-Accept'' = generateAcceptKey nonce"
    unfolding w_def by (rule ReadResponse_upgrade [OF assms(1)])
  have "inp (cc\<lparr>out := (out cc)\<lparr>sent := sent (out cc) @ bytes_of (dial_request u h nonce)\<rparr>\<rparr>) = w @ rest"
    using assms(3) by (simp add: w_def)
  with r have "dial_handshake u h nonce cc = Dialled (NewConnWithReader
      (cc\<lparr>out := (out cc)\<lparr>sent := sent (out cc) @ bytes_of (dial_request u h nonce)\<rparr>, inp := []\<rparr>) True rest) resp"
    unfolding dial_handshake_def Write_ok [OF assms(2)]
    by (simp only: sum.case prod.case old.unit.case r simp_thms if_False)
  then show thesis
    by (rule that) (use assms(2) in \<open>auto simp: NewConnWithReader_def bw_ok_def accepted_def new_bwriter_def\<close>)
qed


definition demo_url :: URL where
  "demo_url = (path_url ''/v1/events'')\<lparr>Scheme := ''ws'', Host := ''h:80''\<rparr>"

definition demo_peer :: conn where
  "demo_peer = \<lparr>inp = [], rend = EOF, out = fresh_sink\<rparr>"


end
