(* ===== verification/Go_Text.thy ===== *)
theory Go_Text
  imports Go_Http
begin

text \<open>
  What the command line and the tunnel arguments use of the standard library: the runes of a string,
  \<^verbatim>\<open>url.ParseQuery\<close>, \<^verbatim>\<open>time.ParseDuration\<close> with its rounding to double precision, and the cutting of
  strings at a substring.
\<close>

subsection \<open>Runes\<close>

definition cont_byte :: "nat \<Rightarrow> nat \<Rightarrow> char \<Rightarrow> bool" where
  "cont_byte lo hi c \<longleftrightarrow> lo \<le> code c \<and> code c \<le> hi"

abbreviation any_cont :: "char \<Rightarrow> bool" where
  "any_cont \<equiv> cont_byte 0x80 0xBF"

text \<open>The length of the well-formed encoding at the head of a string; 0 if there is none.\<close>

fun rune_size :: "string \<Rightarrow> nat" where
  "rune_size [] = 0"
| "rune_size (c # cs) =
     (if code c < 0x80 then 1
      else case cs of
        [] \<Rightarrow> 0
      | d # ds \<Rightarrow>
          if 0xC2 \<le> code c \<and> code c \<le> 0xDF then (if any_cont d then 2 else 0)
          else case ds of
            [] \<Rightarrow> 0
          | e # es \<Rightarrow>
              if 0xE0 \<le> code c \<and> code c \<le> 0xEF then
                (if cont_byte (if code c = 0xE0 then 0xA0 else 0x80) (if code c = 0xED then 0x9F else 0xBF) d \<and> any_cont e
                 then 3 else 0)
              else case es of
                [] \<Rightarrow> 0
              | f # fs \<Rightarrow>
                  if 0xF0 \<le> code c \<and> code c \<le> 0xF4 \<and>
                     cont_byte (if code c = 0xF0 then 0x90 else 0x80) (if code c = 0xF4 then 0x8F else 0xBF) d \<and>
                     any_cont e \<and> any_cont f
                  then 4 else 0)"

text \<open>A loop over the runes sees the replacement character U+FFFD for every byte that starts no
  well-formed encoding.\<close>

function rune_strings :: "string \<Rightarrow> string list" where
  "rune_strings [] = []"
| "rune_strings (c # cs) =
     (let n = rune_size (c # cs) in
      if n = 0 then [chr 0xEF, chr 0xBF, chr 0xBD] # rune_strings cs
      else take n (c # cs) # rune_strings (drop n (c # cs)))"
  by pat_completeness auto
termination
  by (relation "measure length") auto

lemma rune_strings_ascii: "list_all (\<lambda>c. code c < 128) s \<Longrightarrow> rune_strings s = map (\<lambda>c. [c]) s"
  by (induction s) (simp_all add: Let_def)

subsection \<open>Cutting strings\<close>

text \<open>\<^verbatim>\<open>strings.Index\<close> of a byte, as the two sides of it.\<close>

fun cut_at :: "char \<Rightarrow> string \<Rightarrow> string \<times> string option" where
  "cut_at sep [] = ([], None)"
| "cut_at sep (c # cs) = (if c = sep then ([], Some cs) else apfst ((#) c) (cut_at sep cs))"

lemma cut_at_absent: "sep \<notin> set s \<Longrightarrow> cut_at sep s = (s, None)"
  by (induction s) auto

lemma cut_at_present: "sep \<notin> set s \<Longrightarrow> cut_at sep (s @ sep # r) = (s, Some r)"
  by (induction s) auto

definition trim_chars :: "string \<Rightarrow> string \<Rightarrow> string" where
  "trim_chars cs s = rev (dropWhile (\<lambda>c. c \<in> set cs) (rev (dropWhile (\<lambda>c. c \<in> set cs) s)))"

lemma trim_chars_id: "s = [] \<or> hd s \<notin> set cs \<and> last s \<notin> set cs \<Longrightarrow> trim_chars cs s = s"
proof -
  assume a: "s = [] \<or> hd s \<notin> set cs \<and> last s \<notin> set cs"
  then have "dropWhile (\<lambda>c. c \<in> set cs) s = s" by (cases s) auto
  moreover from a have "dropWhile (\<lambda>c. c \<in> set cs) (rev s) = rev s"
    by (cases s rule: rev_cases) auto
  ultimately show ?thesis by (simp add: trim_chars_def)
qed

subsection \<open>Queries\<close>

fun query_unescape :: "string \<Rightarrow> string option" where
  "query_unescape [] = Some []"
| "query_unescape (c # cs) =
     (if c = CHR ''%'' then
        (case cs of
           h # l # rest \<Rightarrow>
             (case (hexval h, hexval l) of
                (Some a, Some b) \<Rightarrow> map_option ((#) (chr (a * 16 + b))) (query_unescape rest)
              | _ \<Rightarrow> None)
         | _ \<Rightarrow> None)
      else map_option ((#) (if c = CHR ''+'' then CHR '' '' else c)) (query_unescape cs))"

text \<open>One parameter of a query; malformed ones are skipped.\<close>

definition query_pair :: "string \<Rightarrow> (string \<times> string) list" where
  "query_pair p =
     (if CHR '';'' \<in> set p \<or> p = [] then []
      else case cut_at (CHR ''='') p of (k, v) \<Rightarrow>
        (case (query_unescape k, query_unescape (case v of None \<Rightarrow> [] | Some v' \<Rightarrow> v')) of
           (Some k', Some v') \<Rightarrow> [(k', v')]
         | _ \<Rightarrow> []))"

text \<open>The parameters in their order: \<open>map_of\<close> finds the first value of a name.\<close>

definition ParseQuery :: "string \<Rightarrow> (string \<times> string) list" where
  "ParseQuery q = concat (map query_pair (Split (CHR ''&'') q))"

subsection \<open>Double precision\<close>

fun bit_length :: "nat \<Rightarrow> nat" where
  "bit_length n = (if n = 0 then 0 else bit_length (n div 2) + 1)"

declare bit_length.simps [simp del]

text \<open>The double nearest to \<open>n / d\<close>, ties to even, as a fraction over \<open>2 ^ 200\<close>; good for every positive
  quotient of at least \<open>2 ^ -147\<close>.\<close>

definition to_double :: "nat \<Rightarrow> nat \<Rightarrow> nat \<times> nat" where
  "to_double n d =
     (let n' = n * 2 ^ 200; sh = bit_length (n' div d) - 53; q = d * 2 ^ sh; m = n' div q; r = n' mod q;
          m' = (if 2 * r > q \<or> 2 * r = q \<and> odd m then m + 1 else m) in
      (m' * 2 ^ sh, 2 ^ 200))"

text \<open>\<^verbatim>\<open>uint64(float64(f) * (float64(unit) / scale))\<close>.\<close>

definition scaled :: "nat \<Rightarrow> nat \<Rightarrow> nat \<Rightarrow> nat" where
  "scaled f unit scale =
     (case (to_double f 1, to_double unit scale) of ((a, b), (c, d)) \<Rightarrow>
        (case to_double (a * c) (b * d) of (n, e) \<Rightarrow> n div e))"

subsection \<open>Durations\<close>

fun leading_int :: "nat \<Rightarrow> string \<Rightarrow> (nat \<times> string) option" where
  "leading_int x [] = Some (x, [])"
| "leading_int x (c # cs) =
     (if \<not> is_digit c then Some (x, c # cs)
      else if x > 2 ^ 63 div 10 then None
      else let y = x * 10 + (code c - 48) in if y > 2 ^ 63 then None else leading_int y cs)"

fun leading_fraction :: "nat \<Rightarrow> nat \<Rightarrow> bool \<Rightarrow> string \<Rightarrow> nat \<times> nat \<times> string" where
  "leading_fraction x scale full [] = (x, scale, [])"
| "leading_fraction x scale full (c # cs) =
     (if \<not> is_digit c then (x, scale, c # cs)
      else if full \<or> x > (2 ^ 63 - 1) div 10 \<or> x * 10 + (code c - 48) > 2 ^ 63
      then leading_fraction x scale True cs
      else leading_fraction (x * 10 + (code c - 48)) (scale * 10) False cs)"

definition unit_map :: "(string \<times> nat) list" where
  "unit_map = [(''ns'', 1), (''us'', 1000), ([chr 0xC2, chr 0xB5, CHR ''s''], 1000),
     ([chr 0xCE, chr 0xBC, CHR ''s''], 1000), (''ms'', 1000000), (''s'', 1000000000), (''m'', 60000000000),
     (''h'', 3600000000000)]"

definition unit_char :: "char \<Rightarrow> bool" where
  "unit_char c \<longleftrightarrow> c \<noteq> CHR ''.'' \<and> \<not> is_digit c"

text \<open>One number with its unit: its nanoseconds and the rest.\<close>

definition duration_item :: "string \<Rightarrow> (nat \<times> string) option" where
  "duration_item s =
     (if s = [] \<or> unit_char (hd s) then None
      else case leading_int 0 s of
        None \<Rightarrow> None
      | Some (v, s1) \<Rightarrow>
          (let (f, scale, s2) = (if s1 \<noteq> [] \<and> hd s1 = CHR ''.'' then leading_fraction 0 1 False (tl s1) else (0, 1, s1));
               pre = (length s1 \<noteq> length s);
               post = (s1 \<noteq> [] \<and> hd s1 = CHR ''.'' \<and> length s2 \<noteq> length (tl s1));
               u = takeWhile unit_char s2; rest = dropWhile unit_char s2 in
           if \<not> pre \<and> \<not> post \<or> u = [] then None
           else case map_of unit_map u of
             None \<Rightarrow> None
           | Some unit \<Rightarrow>
               if v > 2 ^ 63 div unit then None
               else let w = v * unit + (if f > 0 then scaled f unit scale else 0) in
                 if f > 0 \<and> w > 2 ^ 63 then None else Some (w, rest)))"

lemma leading_int_length: "leading_int x s = Some (y, r) \<Longrightarrow> length r \<le> length s"
  by (induction x s rule: leading_int.induct) (fastforce simp: Let_def split: if_splits)+

lemma leading_fraction_length: "leading_fraction x sc b s = (y, sc', r) \<Longrightarrow> length r \<le> length s"
  by (induction x sc b s rule: leading_fraction.induct) (fastforce split: if_splits)+

lemma duration_item_shorter:
  assumes "duration_item s = Some (w, rest)"
  shows "length rest < length s"
proof -
  obtain v s1 where l: "leading_int 0 s = Some (v, s1)"
    using assms by (auto simp: duration_item_def split: if_splits option.splits)
  obtain f scale s2 where f: "(if s1 \<noteq> [] \<and> hd s1 = CHR ''.'' then leading_fraction 0 1 False (tl s1) else (0, 1, s1)) =
      (f, scale, s2)" by (metis prod_cases3)
  have "length s2 \<le> length s1"
    using f leading_fraction_length [of 0 1 False "tl s1" f scale s2] by (auto split: if_splits)
  moreover have "rest = dropWhile unit_char s2" "takeWhile unit_char s2 \<noteq> []"
    using assms by (auto simp: duration_item_def Let_def l f split: if_splits option.splits)
  then have "length rest < length s2"
    using takeWhile_dropWhile_id [of unit_char s2] by (metis length_append length_greater_0_conv less_add_same_cancel2)
  ultimately show ?thesis using leading_int_length [OF l] by linarith
qed

text \<open>The items of a duration, with the checks of the running total.\<close>

function duration_items :: "nat \<Rightarrow> string \<Rightarrow> nat option" where
  "duration_items d s =
     (if s = [] then Some d
      else case duration_item s of
        None \<Rightarrow> None
      | Some (w, rest) \<Rightarrow> if d + w > 2 ^ 63 then None else duration_items (d + w) rest)"
  by pat_completeness auto
termination
  by (relation "measure (length \<circ> snd)") (auto dest: duration_item_shorter)

declare duration_items.simps [simp del]

text \<open>The nanoseconds of \<^verbatim>\<open>time.ParseDuration\<close>.\<close>

definition ParseDuration :: "string \<Rightarrow> int option" where
  "ParseDuration s =
     (let neg = (s \<noteq> [] \<and> hd s = CHR ''-'');
          s' = (if s \<noteq> [] \<and> (hd s = CHR ''-'' \<or> hd s = CHR ''+'') then tl s else s) in
      if s' = ''0'' then Some 0
      else if s' = [] then None
      else case duration_items 0 s' of
        None \<Rightarrow> None
      | Some d \<Rightarrow> if neg then Some (- int d) else if d > 2 ^ 63 - 1 then None else Some (int d))"

end
