(* ===== verification/Client_Connect.thy ===== *)
theory Client_Connect
  imports Target_Frame Wst_Upgrade Go_Text
begin

text \<open>
  How the client reaches the server, \<^verbatim>\<open>pkg/client/client.go\<close> and \<^verbatim>\<open>pkg/client/transport.go\<close>: the token it
  signs, the headers and the URL of its request, the raw and the TLS connection, the choice of the
  transport, the choice of the pump, and which runner serves which kind of tunnel.

  The JWT library (\<open>Sign\<close>), the third-party HTTP/2 and WebSocket clients, the network and TLS are
  arguments. A Go map is an association list; the order in which the runtime walks over it is the
  order of the list. The URL that \<^verbatim>\<open>Dial\<close> parses again from its printed form is passed as it is.
\<close>

subsection \<open>Configuration\<close>

record ClientConfig =
  cServerURL :: string
  cPathPrefix :: string
  cJWTSecret :: string
  cHeaders :: "(string \<times> string) list"
  cMaskFrame :: bool
  cPingFrequency :: int
  cTlsVerifyCert :: bool
  cTlsClientCert :: string
  cTlsClientKey :: string
  cTlsSniOverride :: string
  cTlsSniDisable :: bool
  cTlsEchEnable :: bool
  cSocketSoMark :: u32
  cConnectionMinIdle :: u32
  cConnectionRetryMaxBackoff :: int
  cReverseTunnelConnectionRetryMaxBackoff :: int
  cHttpProxy :: string
  cHttpProxyLogin :: string
  cHttpProxyPassword :: string
  cHttpUpgradeCredentials :: string
  cHttpHeadersFile :: string
  cDnsResolver :: "string list"
  cDnsResolverPreferIpv4 :: bool
  cLocalToRemote :: "string list"
  cRemoteToLocal :: "string list"
  cWebsocketProtocol :: string

subsection \<open>The token\<close>

definition legacyJWTSecret :: string where
  "legacyJWTSecret = ''champignonfrais''"

definition generateJWT ::
  "(string \<Rightarrow> JwtTunnelConfig \<Rightarrow> go_error + string) \<Rightarrow> ClientConfig \<Rightarrow> string \<Rightarrow> LocalProtocol \<Rightarrow> string \<Rightarrow> port \<Rightarrow>
   go_error + string" where
  "generateJWT Sign cfg requestID p host prt =
     Sign (if cJWTSecret cfg = [] then legacyJWTSecret else cJWTSecret cfg)
       \<lparr>ID = requestID, Protocol = p, Remote = host, Port = prt\<rparr>"

subsection \<open>Headers and path\<close>


definition eventsPath :: "string \<Rightarrow> string" where
  "eventsPath pfx =
     (let p = trim_chars ''/'' pfx in
      if p = [] then ''/events'' else ''/'' @ p @ ''/events'')"

text \<open>The lines of a file as \<^verbatim>\<open>bufio.Scanner\<close> gives them: without their line ends, up to the first one
  that does not fit into the scanner's buffer of 64 KiB.\<close>

definition scan_lines :: "string \<Rightarrow> string list" where
  "scan_lines s =
     (let ls = Split (chr 10) s;
          ls' = (if last ls = [] then butlast ls else ls) in
      map (\<lambda>l. if l \<noteq> [] \<and> last l = chr 13 then butlast l else l) (takeWhile (\<lambda>l. length l < 65536) ls'))"

definition add_header_line :: "string \<Rightarrow> (string \<times> string) list \<Rightarrow> (string \<times> string) list" where
  "add_header_line line hs =
     (case SplitN2 (CHR '':'') line of
        [k, v] \<Rightarrow> AList.update (TrimSpace k) (TrimSpace v) hs
      | _ \<Rightarrow> hs)"

definition loadHttpHeaders :: "(string \<Rightarrow> go_error + string) \<Rightarrow> ClientConfig \<Rightarrow> (string \<times> string) list" where
  "loadHttpHeaders openFile cfg =
     (if cHttpHeadersFile cfg = [] then []
      else case openFile (cHttpHeadersFile cfg) of
        Inl e \<Rightarrow> []
      | Inr content \<Rightarrow> fold add_header_line (scan_lines content) [])"

definition set_all :: "(string \<times> string) list \<Rightarrow> header \<Rightarrow> header" where
  "set_all kvs h = fold (\<lambda>(k, v). SetHeader k v) kvs h"

definition custom_headers :: "(string \<Rightarrow> go_error + string) \<Rightarrow> ClientConfig \<Rightarrow> header \<Rightarrow> header" where
  "custom_headers openFile cfg h =
     (let h' = set_all (loadHttpHeaders openFile cfg) (set_all (cHeaders cfg) h) in
      if cHttpUpgradeCredentials cfg \<noteq> [] then SetHeader ''Authorization'' (cHttpUpgradeCredentials cfg) h' else h')"

definition ws_header :: "(string \<Rightarrow> go_error + string) \<Rightarrow> ClientConfig \<Rightarrow> string \<Rightarrow> header" where
  "ws_header openFile cfg token =
     custom_headers openFile cfg
       (SetHeader ''Sec-WebSocket-Protocol'' (''v1, '' @ JwtHeaderPrefix @ token) [])"

definition h2_header :: "(string \<Rightarrow> go_error + string) \<Rightarrow> ClientConfig \<Rightarrow> string \<Rightarrow> header" where
  "h2_header openFile cfg token =
     custom_headers openFile cfg
       (SetHeader ''Content-Type'' ''application/json'' (SetHeader ''Cookie'' token []))"

definition with_port :: "URL \<Rightarrow> URL" where
  "with_port u = (if PortOf u = [] then u\<lparr>Host := JoinHostPort (Hostname u) (server_port u)\<rparr> else u)"

definition ws_url :: "ClientConfig \<Rightarrow> URL \<Rightarrow> URL" where
  "ws_url cfg u =
     (with_port u)\<lparr>Scheme := (if secure (Scheme u) then ''ws'' else Scheme u), Path := eventsPath (cPathPrefix cfg)\<rparr>"

definition h2_url :: "ClientConfig \<Rightarrow> URL \<Rightarrow> URL" where
  "h2_url cfg u =
     (with_port u)\<lparr>Scheme := (if Scheme u = ''ws'' then ''http'' else if Scheme u = ''wss'' then ''https'' else Scheme u),
        Path := eventsPath (cPathPrefix cfg)\<rparr>"

definition gorilla_url :: "ClientConfig \<Rightarrow> URL \<Rightarrow> URL" where
  "gorilla_url cfg u =
     u\<lparr>Scheme := (if Scheme u \<in> {''ws'', ''http''} then ''ws''
                  else if Scheme u \<in> {''wss'', ''https''} then ''wss'' else Scheme u),
       Path := eventsPath (cPathPrefix cfg)\<rparr>"

subsection \<open>Raw and TLS connections\<close>

datatype client_cert = NoCert | ReloadedCert | LoadedCert string string

record tls_config =
  InsecureSkipVerify :: bool
  ServerName :: string
  ClientCert :: client_cert

text \<open>\<open>reloader\<close> tells whether the client has a certificate reloader, \<open>loadPair\<close> answers for the files.\<close>

definition tlsClientConfig ::
  "bool \<Rightarrow> (string \<Rightarrow> string \<Rightarrow> go_error option) \<Rightarrow> ClientConfig \<Rightarrow> string \<Rightarrow> go_error + tls_config" where
  "tlsClientConfig reloader loadPair cfg serverName =
     (let t = \<lparr>InsecureSkipVerify = \<not> cTlsVerifyCert cfg,
               ServerName = (if cTlsSniOverride cfg \<noteq> [] then cTlsSniOverride cfg else serverName),
               ClientCert = NoCert\<rparr> in
      if cTlsClientCert cfg \<noteq> [] \<and> cTlsClientKey cfg \<noteq> [] then
        (if reloader then Inr (t\<lparr>ClientCert := ReloadedCert\<rparr>)
         else case loadPair (cTlsClientCert cfg) (cTlsClientKey cfg) of
           Some e \<Rightarrow> Inl (Errorf ''failed to load client cert'')
         | None \<Rightarrow> Inr (t\<lparr>ClientCert := LoadedCert (cTlsClientCert cfg) (cTlsClientKey cfg)\<rparr>))
      else Inr t)"

text \<open>\<open>netDial\<close> opens a socket with the given mark and connects it.\<close>

definition dialRawTransport ::
  "(u32 \<Rightarrow> string \<Rightarrow> string \<Rightarrow> go_error + conn) \<Rightarrow> ClientConfig \<Rightarrow> string \<Rightarrow> string \<Rightarrow>
   go_error + conn \<times> URL \<times> string" where
  "dialRawTransport netDial cfg network a =
     (case ParseURL (cServerURL cfg) of
        Inl e \<Rightarrow> Inl (Errorf ''invalid server url'')
      | Inr u \<Rightarrow>
          (case netDial (cSocketSoMark cfg) (if network = [] then ''tcp'' else network)
                  (if a = [] then JoinHostPort (Hostname u) (server_port u) else a) of
             Inl e \<Rightarrow> Inl e
           | Inr c \<Rightarrow> Inr (c, u, Hostname u)))"

record dial_env =
  netDial :: "u32 \<Rightarrow> string \<Rightarrow> string \<Rightarrow> go_error + conn"
  tlsHandshake :: "tls_config \<Rightarrow> conn \<Rightarrow> go_error + conn"
  hasReloader :: bool
  loadPair :: "string \<Rightarrow> string \<Rightarrow> go_error option"

definition dialTransport :: "dial_env \<Rightarrow> ClientConfig \<Rightarrow> string \<Rightarrow> string \<Rightarrow> go_error + conn" where
  "dialTransport env cfg network a =
     (case dialRawTransport (netDial env) cfg network a of
        Inl e \<Rightarrow> Inl e
      | Inr (c, u, host) \<Rightarrow>
          if secure (Scheme u) then
            (case tlsClientConfig (hasReloader env) (loadPair env) cfg host of
               Inl e \<Rightarrow> Inl e
             | Inr t \<Rightarrow>
                 (case tlsHandshake env t c of
                    Inl e \<Rightarrow> Inl (Errorf ''tls handshake failed'')
                  | Inr c' \<Rightarrow> Inr c'))
          else Inr c)"

subsection \<open>The three transports\<close>

text \<open>What a connection attempt asks of its surroundings: the pool (\<open>None\<close> when the client has none),
  the fresh identifier and nonce, the signature, the header file, and the two third-party clients,
  which are handed the function that connects.\<close>

type_synonym connector = "string \<Rightarrow> string \<Rightarrow> go_error + conn"

record 'g client_env = dial_env +
  poolGet :: "(go_error + conn) option"
  newUUID :: string
  nonceBytes :: "byte list"
  SignToken :: "string \<Rightarrow> JwtTunnelConfig \<Rightarrow> go_error + string"
  openFile :: "string \<Rightarrow> go_error + string"
  httpDo :: "connector \<Rightarrow> URL \<Rightarrow> header \<Rightarrow> go_error + response \<times> conn"
  gorillaDial :: "tls_config option \<Rightarrow> connector \<Rightarrow> URL \<Rightarrow> header \<Rightarrow> go_error + 'g \<times> response"

definition client_token :: "'g client_env \<Rightarrow> ClientConfig \<Rightarrow> LocalProtocol \<Rightarrow> string \<Rightarrow> port \<Rightarrow> go_error + string" where
  "client_token env cfg p host prt =
     (case generateJWT (SignToken env) cfg (newUUID env) p host prt of
        Inl e \<Rightarrow> Inl (Errorf ''failed to generate JWT'')
      | Inr token \<Rightarrow> Inr token)"

definition pool_or_dial :: "'g client_env \<Rightarrow> ClientConfig \<Rightarrow> connector" where
  "pool_or_dial env cfg network a =
     (case poolGet env of Some r \<Rightarrow> r | None \<Rightarrow> dialTransport (dial_env.truncate env) cfg network a)"

definition connectToWarpStream ::
  "'g client_env \<Rightarrow> ClientConfig \<Rightarrow> LocalProtocol \<Rightarrow> string \<Rightarrow> port \<Rightarrow> go_error + Conn \<times> response" where
  "connectToWarpStream env cfg p host prt =
     (case client_token env cfg p host prt of
        Inl e \<Rightarrow> Inl e
      | Inr token \<Rightarrow>
          (case ParseURL (cServerURL cfg) of
             Inl e \<Rightarrow> Inl (Errorf ''invalid server url'')
           | Inr u \<Rightarrow>
               (case DialURL (pool_or_dial env cfg) (\<lambda>name c. Inr c) (nonceBytes env) (ws_url cfg u)
                       (ws_header (openFile env) cfg token) of
                  DialFailed e r \<Rightarrow> Inl (Errorf ''failed to dial'')
                | Dialled c r \<Rightarrow> Inr (c, r))))"

definition connectToHttp2 ::
  "'g client_env \<Rightarrow> ClientConfig \<Rightarrow> LocalProtocol \<Rightarrow> string \<Rightarrow> port \<Rightarrow> go_error + conn \<times> response" where
  "connectToHttp2 env cfg p host prt =
     (case client_token env cfg p host prt of
        Inl e \<Rightarrow> Inl e
      | Inr token \<Rightarrow>
          (case ParseURL (cServerURL cfg) of
             Inl e \<Rightarrow> Inl (Errorf ''invalid server url'')
           | Inr u \<Rightarrow>
               (case httpDo env (dialTransport (dial_env.truncate env) cfg) (h2_url cfg u)
                       (h2_header (openFile env) cfg token) of
                  Inl e \<Rightarrow> Inl (Errorf ''failed to send request'')
                | Inr (r, c) \<Rightarrow>
                    if StatusCode r \<noteq> 200 then Inl (Errorf (''server rejected request: '' @ Status r))
                    else Inr (c, r))))"

definition raw_connector :: "'g client_env \<Rightarrow> ClientConfig \<Rightarrow> connector" where
  "raw_connector env cfg network a =
     (case dialRawTransport (netDial env) cfg network a of Inl e \<Rightarrow> Inl e | Inr (c, _, _) \<Rightarrow> Inr c)"

definition connectToGorilla ::
  "'g client_env \<Rightarrow> ClientConfig \<Rightarrow> LocalProtocol \<Rightarrow> string \<Rightarrow> port \<Rightarrow> go_error + 'g \<times> response" where
  "connectToGorilla env cfg p host prt =
     (case client_token env cfg p host prt of
        Inl e \<Rightarrow> Inl e
      | Inr token \<Rightarrow>
          (case ParseURL (cServerURL cfg) of
             Inl e \<Rightarrow> Inl (Errorf ''invalid server url'')
           | Inr u \<Rightarrow>
               (let u' = gorilla_url cfg u; isTLS = (Scheme u' = ''wss'');
                    dial = (case poolGet env of
                              Some r \<Rightarrow> if \<not> isTLS then (\<lambda>network a. r) else raw_connector env cfg
                            | None \<Rightarrow> raw_connector env cfg) in
                case (if isTLS then (case tlsClientConfig (hasReloader env) (loadPair env) cfg (Hostname u') of
                                       Inl e \<Rightarrow> Inl e | Inr t \<Rightarrow> Inr (Some t))
                      else Inr None) of
                  Inl e \<Rightarrow> Inl e
                | Inr tls \<Rightarrow> gorillaDial env tls dial u' (ws_header (openFile env) cfg token))))"

definition connectToTransport ::
  "'g client_env \<Rightarrow> ClientConfig \<Rightarrow> LocalProtocol \<Rightarrow> string \<Rightarrow> port \<Rightarrow> go_error + 'g tunnelStream \<times> response" where
  "connectToTransport env cfg p host prt =
     (case ParseURL (cServerURL cfg) of
        Inl e \<Rightarrow> Inl (Errorf ''invalid server URL'')
      | Inr u \<Rightarrow>
          if Scheme u = ''http'' \<or> Scheme u = ''https''
          then map_sum id (apfst H2) (connectToHttp2 env cfg p host prt)
          else if cWebsocketProtocol cfg = ''ws''
          then map_sum id (apfst Gorilla) (connectToGorilla env cfg p host prt)
          else map_sum id (apfst WS) (connectToWarpStream env cfg p host prt))"

subsection \<open>The pumps\<close>

text \<open>The stream with its ping handler installed, and whether a ticker sends pings beside the pump. The
  Gorilla connection is opaque; its handler and ticker are the same. A stream without a transport
  would be a nil dereference in \<^verbatim>\<open>PipeBiDir\<close>.\<close>

datatype 'g pump = PumpWst Conn bool | PumpGorilla 'g bool | PumpBiDir conn | PumpNil

fun startPipe :: "ClientConfig \<Rightarrow> 'g tunnelStream \<Rightarrow> 'g pump" where
  "startPipe cfg (WS c) = PumpWst (SetPingHandler c (Some ReplyPing)) (cPingFrequency cfg > 0)"
| "startPipe cfg (Gorilla g) = PumpGorilla g (cPingFrequency cfg > 0)"
| "startPipe cfg (H2 c) = PumpBiDir c"
| "startPipe cfg NoStream = PumpNil"

text \<open>One tick of the ping goroutine on a wst connection; it ends with the first error.\<close>

definition ping_tick :: "Conn \<Rightarrow> go_error option \<times> Conn" where
  "ping_tick c = WriteMessage c PingMessage []"

end
