(* ===== verification/Server_Gate.thy ===== *)
theory Server_Gate
  imports Restrictions Proxy_Header Wst_Upgrade
begin

text \<open>
  The server's entry point, \<^verbatim>\<open>pkg/server/server.go\<close>: its configuration, the token of a request and
  the checks of \<^verbatim>\<open>ServeHTTP\<close>, the three tunnel handlers with the dialling of the target, and the
  choice of the listening address and of TLS in \<^verbatim>\<open>Start\<close>.

  The JWT library and the third-party WebSocket are arguments: \<open>ParseUnverified\<close> decodes a token,
  \<open>ParseWithClaims\<close> also checks it with the key that a key function gives for its algorithm.
\<close>

subsection \<open>Configuration\<close>

record ServerConfig =
  sListenAddr :: string
  sPathPrefix :: string
  sJWTSecret :: string
  sInsecureNoJWTValidation :: bool
  sSocketSoMark :: u32
  sWebsocketPingFrequency :: int
  sWebsocketMaskFrame :: bool
  sDnsResolver :: "string list"
  sDnsResolverPreferIpv4 :: bool
  sRestrictTo :: "string list"
  sRestrictHttpUpgradePathPrefix :: "string list"
  sRestrictConfig :: string
  sTls :: bool
  sTlsCertificate :: string
  sTlsPrivateKey :: string
  sTlsClientCaCerts :: string
  sHttpProxy :: string
  sHttpProxyLogin :: string
  sHttpProxyPassword :: string
  sRemoteToLocalServerIdleTimeout :: int
  sWebsocketProtocol :: string

text \<open>The older name of the path prefix in a configuration file counts when the new one is absent.\<close>

definition ServerConfig_of_yaml :: "go_error + ServerConfig \<times> string \<Rightarrow> go_error + ServerConfig" where
  "ServerConfig_of_yaml decoded =
     (case decoded of
        Inl e \<Rightarrow> Inl e
      | Inr (c, legacy) \<Rightarrow> Inr (if sPathPrefix c = [] then c\<lparr>sPathPrefix := legacy\<rparr> else c))"

subsection \<open>Tokens\<close>

datatype alg = HS256 | OtherAlg string

type_synonym parse_unverified = "string \<Rightarrow> go_error + JwtTunnelConfig \<times> alg"
type_synonym parse_with_claims =
  "string \<Rightarrow> (alg \<Rightarrow> go_error + string) \<Rightarrow> go_error + JwtTunnelConfig \<times> bool"

definition jwtSigningMethodName :: "alg \<Rightarrow> string" where
  "jwtSigningMethodName a = (case a of HS256 \<Rightarrow> ''HS256'' | OtherAlg n \<Rightarrow> n)"

definition unexpected_method :: "alg \<Rightarrow> go_error" where
  "unexpected_method a = Errorf (''unexpected signing method: '' @ jwtSigningMethodName a)"

definition parseUnverified :: "parse_unverified \<Rightarrow> string \<Rightarrow> go_error + JwtTunnelConfig" where
  "parseUnverified ParseUnverified tok =
     (case ParseUnverified tok of
        Inl e \<Rightarrow> Inl e
      | Inr (claims, a) \<Rightarrow> if a \<noteq> HS256 then Inl (unexpected_method a) else Inr claims)"

definition keyfunc :: "string \<Rightarrow> alg \<Rightarrow> go_error + string" where
  "keyfunc secret a = (if a \<noteq> HS256 then Inl (unexpected_method a) else Inr secret)"

definition parseJWTClaims ::
  "parse_unverified \<Rightarrow> parse_with_claims \<Rightarrow> ServerConfig \<Rightarrow> string \<Rightarrow> go_error + JwtTunnelConfig" where
  "parseJWTClaims ParseUnverified ParseWithClaims cfg tok =
     (if sWebsocketProtocol cfg \<noteq> ''ws'' then parseUnverified ParseUnverified tok
      else if sJWTSecret cfg \<noteq> [] then
        (case ParseWithClaims tok (keyfunc (sJWTSecret cfg)) of
           Inr (claims, True) \<Rightarrow> Inr claims
         | Inr (claims, False) \<Rightarrow>
             if \<not> sInsecureNoJWTValidation cfg then Inl (Errorf ''invalid JWT token'')
             else parseUnverified ParseUnverified tok
         | Inl e \<Rightarrow>
             if \<not> sInsecureNoJWTValidation cfg then Inl e else parseUnverified ParseUnverified tok)
      else parseUnverified ParseUnverified tok)"

fun first_bearer :: "string list \<Rightarrow> string" where
  "first_bearer [] = []"
| "first_bearer (part # parts) =
     (if HasPrefix (TrimSpace part) JwtHeaderPrefix then TrimPrefix (TrimSpace part) JwtHeaderPrefix
      else first_bearer parts)"

definition request_token :: "header \<Rightarrow> string" where
  "request_token h =
     (let t = first_bearer (Split (CHR '','') (Get h ''Sec-WebSocket-Protocol'')) in
      if t = [] then Get h ''Cookie'' else t)"

subsection \<open>Requests\<close>

record server_request = request +
  rPeerName :: "string option"
  rRemoteAddr :: string

datatype 'g served =
    HttpError nat string
  | Http2Tunnel JwtTunnelConfig
  | GorillaTunnel JwtTunnelConfig 'g
  | WstTunnel JwtTunnelConfig Conn
  | NotUpgraded go_error

definition subprotocols :: "header \<Rightarrow> string list" where
  "subprotocols h =
     (if list_ex (\<lambda>p. TrimSpace p = ''v1'') (Split (CHR '','') (Get h ''Sec-WebSocket-Protocol''))
      then [''v1''] else [])"

definition isWebsocket :: "header \<Rightarrow> bool" where
  "isWebsocket h \<longleftrightarrow> ToLower_ascii (Get h ''Upgrade'') = ''websocket''"

definition ServeHTTP ::
  "parse_unverified \<Rightarrow> parse_with_claims \<Rightarrow> (string list \<Rightarrow> server_request \<Rightarrow> go_error + 'g) \<Rightarrow>
   ServerConfig \<Rightarrow> RestrictionsRules option \<Rightarrow> server_request \<Rightarrow> go_error + conn \<times> byte list \<Rightarrow> 'g served" where
  "ServeHTTP ParseUnverified ParseWithClaims gorillaUpgrade cfg rules r hijack =
     (let h = rHeader r; tok = request_token h; path = Path (rURL r) in
      if sPathPrefix cfg \<noteq> [] \<and> \<not> HasPrefix path (''/'' @ sPathPrefix cfg)
      then HttpError 404 ''Not found''
      else if tok = [] then HttpError 401 ''Missing authorization token''
      else case parseJWTClaims ParseUnverified ParseWithClaims cfg tok of
        Inl e \<Rightarrow> HttpError 401 ''Invalid token''
      | Inr claims \<Rightarrow>
          if \<not> Validate rules claims path (Get h ''Authorization'')
                 (case rPeerName r of None \<Rightarrow> [] | Some cn \<Rightarrow> cn)
          then HttpError 403 ''Forbidden by restrictions''
          else if fst (rVersion r) \<ge> 2 \<and> \<not> isWebsocket h then Http2Tunnel claims
          else if sWebsocketProtocol cfg = ''ws'' then
            (case gorillaUpgrade (subprotocols h) r of
               Inl e \<Rightarrow> NotUpgraded e
             | Inr g \<Rightarrow> GorillaTunnel claims g)
          else
            (case Upgrade (subprotocols h) (request.truncate r) hijack of
               UpgradeFailed e \<Rightarrow> NotUpgraded e
             | Upgraded c \<Rightarrow> WstTunnel claims c))"

subsection \<open>Tunnels\<close>

definition shouldWriteProxyHeader :: "JwtTunnelConfig \<Rightarrow> bool" where
  "shouldWriteProxyHeader claims \<longleftrightarrow>
     (case Tcp (Protocol claims) of Some t \<Rightarrow> tcpProxyProtocol t | None \<Rightarrow> False) \<or>
     (case HttpProxy (Protocol claims) of Some t \<Rightarrow> httpProxyProtocol t | None \<Rightarrow> False) \<or>
     (case Stdio (Protocol claims) of Some t \<Rightarrow> stdioProxyProtocol t | None \<Rightarrow> False) \<or>
     (case Unix (Protocol claims) of Some t \<Rightarrow> unixProxyProtocol t | None \<Rightarrow> False)"

definition udpTimeoutDuration :: "JwtTunnelConfig \<Rightarrow> time_duration" where
  "udpTimeoutDuration claims =
     (case Udp (Protocol claims) of
        Some u \<Rightarrow>
          (case udpTimeout u of
             Some d \<Rightarrow> if Secs d > 0 then Secs d * Second else 30 * Second
           | None \<Rightarrow> 30 * Second)
      | None \<Rightarrow> 30 * Second)"

text \<open>A dialled target: the connection and the idle timeout it is wrapped with, if any.\<close>

record target =
  tConn :: conn
  tIdle :: "time_duration option"

type_synonym dialler = "string \<Rightarrow> string \<Rightarrow> go_error + conn \<times> net_addr"

definition dialTargetAndMaybeProxyHeader ::
  "dialler \<Rightarrow> JwtTunnelConfig \<Rightarrow> string \<Rightarrow> string \<Rightarrow> net_addr \<Rightarrow> go_error + target" where
  "dialTargetAndMaybeProxyHeader dial claims network targetAddr srcAddr =
     (case dial network targetAddr of
        Inl e \<Rightarrow> Inl e
      | Inr (c, remote) \<Rightarrow>
          let idle = (if network = ''udp'' then Some (udpTimeoutDuration claims) else None) in
          if network = ''tcp'' \<and> shouldWriteProxyHeader claims then
            (case WriteProxyHeaderV2 (out c) srcAddr remote of
               (Some e, s) \<Rightarrow> Inl (Errorf ''failed to write PROXY protocol header'')
             | (None, s) \<Rightarrow> Inr \<lparr>tConn = c\<lparr>out := s\<rparr>, tIdle = idle\<rparr>)
          else Inr \<lparr>tConn = c, tIdle = idle\<rparr>)"

definition isForward :: "LocalProtocol \<Rightarrow> bool" where
  "isForward p \<longleftrightarrow> Tcp p \<noteq> None \<or> Udp p \<noteq> None \<or> Socks5 p \<noteq> None \<or> HttpProxy p \<noteq> None \<or> Unix p \<noteq> None"

definition target_of :: "JwtTunnelConfig \<Rightarrow> string \<times> string" where
  "target_of claims =
     (case Unix (Protocol claims) of
        Some u \<Rightarrow> (''unix'', unixPath u)
      | None \<Rightarrow> (if Udp (Protocol claims) \<noteq> None then ''udp'' else ''tcp'',
                 hostport (Remote claims) (Port claims)))"

text \<open>What becomes of a tunnel: its target cannot be reached, the bytes are piped to the target, the
  client waits in the reverse tunnel manager, or the protocol is not supported.\<close>

datatype handled = TargetFailed go_error | Piped target | ToManager | UnsupportedProtocol

definition handle_tunnel :: "dialler \<Rightarrow> JwtTunnelConfig \<Rightarrow> net_addr \<Rightarrow> handled" where
  "handle_tunnel dial claims src =
     (if isForward (Protocol claims) then
        (case dialTargetAndMaybeProxyHeader dial claims (fst (target_of claims)) (snd (target_of claims)) src of
           Inl e \<Rightarrow> TargetFailed e
         | Inr t \<Rightarrow> Piped t)
      else if isReverse (Protocol claims) then ToManager
      else UnsupportedProtocol)"

definition handleConnection :: "dialler \<Rightarrow> Conn \<Rightarrow> net_addr \<Rightarrow> JwtTunnelConfig \<Rightarrow> handled \<times> Conn" where
  "handleConnection dial wsConn remote claims =
     (handle_tunnel dial claims remote, SetPingHandler wsConn (Some ReplyPing))"

definition handleGorillaConnection :: "dialler \<Rightarrow> net_addr \<Rightarrow> JwtTunnelConfig \<Rightarrow> handled" where
  "handleGorillaConnection dial remote claims = handle_tunnel dial claims remote"

definition handleHttp2Connection :: "dialler \<Rightarrow> server_request \<Rightarrow> JwtTunnelConfig \<Rightarrow> handled" where
  "handleHttp2Connection dial r claims = handle_tunnel dial claims (OtherAddr (rRemoteAddr r))"

subsection \<open>Listening\<close>

definition listen_addr :: "ServerConfig \<Rightarrow> string" where
  "listen_addr cfg =
     (if Contains (sListenAddr cfg) ''://'' then
        (case ParseURL (sListenAddr cfg) of
           Inl e \<Rightarrow> sListenAddr cfg
         | Inr u \<Rightarrow> JoinHostPort (Hostname u) (server_port u))
      else sListenAddr cfg)"

datatype certificate = CertFiles string string | SelfSigned

datatype serving = ServePlain string | ServeTLS string certificate bool

text \<open>The answers of the system: to the bind, to configuring HTTP/2, to reading the client CAs, to
  loading a key pair and to generating a certificate (\<open>None\<close>: no error). The flag of \<open>ServeTLS\<close>
  says that a verified client certificate is required.\<close>

definition StartServer ::
  "(string \<Rightarrow> go_error option) \<Rightarrow> go_error option \<Rightarrow> (string \<Rightarrow> go_error option) \<Rightarrow>
   (string \<Rightarrow> string \<Rightarrow> go_error option) \<Rightarrow> go_error option \<Rightarrow> ServerConfig \<Rightarrow> go_error + serving" where
  "StartServer listen configureH2 readCA newReloader generate cfg =
     (let a = listen_addr cfg;
          pair = sTlsCertificate cfg \<noteq> [] \<and> sTlsPrivateKey cfg \<noteq> [];
          ca = sTlsClientCaCerts cfg \<noteq> [] in
      case listen a of Some e \<Rightarrow> Inl e | None \<Rightarrow>
      (case configureH2 of Some e \<Rightarrow> Inl (Errorf ''failed to configure HTTP/2'') | None \<Rightarrow>
       if pair \<or> sTls cfg \<or> ca then
         (case (if ca then readCA (sTlsClientCaCerts cfg) else None) of
            Some e \<Rightarrow> Inl (Errorf ''failed to read client CA certs'')
          | None \<Rightarrow>
              if pair then
                (case newReloader (sTlsCertificate cfg) (sTlsPrivateKey cfg) of
                   Some e \<Rightarrow> Inl (Errorf ''failed to load TLS certificates'')
                 | None \<Rightarrow> Inr (ServeTLS a (CertFiles (sTlsCertificate cfg) (sTlsPrivateKey cfg)) ca))
              else
                (case generate of
                   Some e \<Rightarrow> Inl (Errorf ''failed to generate ephemeral self-signed certificate'')
                 | None \<Rightarrow> Inr (ServeTLS a SelfSigned ca)))
       else Inr (ServePlain a)))"

lemma client_certificates_required:
  assumes "sTlsClientCaCerts cfg \<noteq> []"
    and "StartServer listen configureH2 readCA newReloader generate cfg = Inr s"
  shows "\<exists>c. s = ServeTLS (listen_addr cfg) c True"
  using assms by (auto simp: StartServer_def Let_def split: option.splits if_splits)

subsection \<open>Properties\<close>

text \<open>The documented guarantee of the JWT library: a token is valid only if it carries the signature
  of its claims, by its algorithm, under the key that the key function gave for that algorithm.\<close>

definition jwt_sound ::
  "parse_with_claims \<Rightarrow> (string \<Rightarrow> alg \<Rightarrow> string \<Rightarrow> JwtTunnelConfig \<Rightarrow> bool) \<Rightarrow> bool" where
  "jwt_sound ParseWithClaims signs \<longleftrightarrow>
     (\<forall>tok kf claims. ParseWithClaims tok kf = Inr (claims, True) \<longrightarrow>
        (\<exists>a key. kf a = Inr key \<and> signs tok a key claims))"

fun tunnel_claims :: "'g served \<Rightarrow> JwtTunnelConfig option" where
  "tunnel_claims (Http2Tunnel c) = Some c"
| "tunnel_claims (GorillaTunnel c g) = Some c"
| "tunnel_claims (WstTunnel c s) = Some c"
| "tunnel_claims _ = None"

lemma ServeHTTP_claims:
  assumes "tunnel_claims (ServeHTTP pu pc gu cfg rules r hijack) = Some claims"
  shows "(sPathPrefix cfg = [] \<or> HasPrefix (Path (rURL r)) (''/'' @ sPathPrefix cfg)) \<and>
    request_token (rHeader r) \<noteq> [] \<and>
    parseJWTClaims pu pc cfg (request_token (rHeader r)) = Inr claims \<and>
    Validate rules claims (Path (rURL r)) (Get (rHeader r) ''Authorization'')
      (case rPeerName r of None \<Rightarrow> [] | Some cn \<Rightarrow> cn)"
  using assms
  by (auto simp: ServeHTTP_def Let_def split: if_splits sum.splits upgrade_result.splits)

lemma parseJWTClaims_verified:
  assumes "jwt_sound pc signs" "sWebsocketProtocol cfg = ''ws''" "sJWTSecret cfg \<noteq> []"
    and "\<not> sInsecureNoJWTValidation cfg" "parseJWTClaims pu pc cfg tok = Inr claims"
  shows "signs tok HS256 (sJWTSecret cfg) claims"
proof -
  have "pc tok (keyfunc (sJWTSecret cfg)) = Inr (claims, True)"
    using assms(2-5) by (auto simp: parseJWTClaims_def split: sum.splits bool.splits if_splits)
  with assms(1) obtain a key where "keyfunc (sJWTSecret cfg) a = Inr key" "signs tok a key claims"
    unfolding jwt_sound_def by blast
  then show ?thesis by (auto simp: keyfunc_def split: if_splits)
qed


text \<open>A token library for the examples: a token is its key followed by an x, and every token carries
  the same claims.\<close>

definition demo_claims :: JwtTunnelConfig where
  "demo_claims = tcp_claims ''h'' 1"

definition demo_signs :: "string \<Rightarrow> alg \<Rightarrow> string \<Rightarrow> JwtTunnelConfig \<Rightarrow> bool" where
  "demo_signs tok a key claims \<longleftrightarrow> a = HS256 \<and> tok = key @ ''x'' \<and> claims = demo_claims"

definition demo_parse :: parse_with_claims where
  "demo_parse tok kf =
     (case kf HS256 of
        Inl e \<Rightarrow> Inl e
      | Inr key \<Rightarrow> if tok = key @ ''x'' then Inr (demo_claims, True) else Inl (Errorf ''signature is invalid''))"

definition demo_unverified :: parse_unverified where
  "demo_unverified tok = Inr (demo_claims, HS256)"

definition demo_gorilla :: "string list \<Rightarrow> server_request \<Rightarrow> go_error + unit" where
  "demo_gorilla subs r = Inr ()"

definition default_config :: ServerConfig where
  "default_config = \<lparr>sListenAddr = '':80'', sPathPrefix = ''v1'', sJWTSecret = [], sInsecureNoJWTValidation = False,
     sSocketSoMark = 0, sWebsocketPingFrequency = 0, sWebsocketMaskFrame = False, sDnsResolver = [],
     sDnsResolverPreferIpv4 = False, sRestrictTo = [], sRestrictHttpUpgradePathPrefix = [], sRestrictConfig = [],
     sTls = False, sTlsCertificate = [], sTlsPrivateKey = [], sTlsClientCaCerts = [], sHttpProxy = [],
     sHttpProxyLogin = [], sHttpProxyPassword = [], sRemoteToLocalServerIdleTimeout = 0,
     sWebsocketProtocol = ''rust''\<rparr>"

definition demo_request :: server_request where
  "demo_request = \<lparr>rMethod = ''POST'', rURL = path_url ''/v1/events'', rVersion = (2, 0),
     rHeader = [(''Cookie'', [''kx''])], rHost = ''s'', rPeerName = None, rRemoteAddr = ''10.0.0.1:9''\<rparr>"

lemma demo_jwt_sound: "jwt_sound demo_parse demo_signs"
  unfolding jwt_sound_def demo_parse_def demo_signs_def by (fastforce split: sum.splits if_splits)

lemma demo_request_facts:
  "request_token (rHeader demo_request) = ''kx''" "\<not> isWebsocket (rHeader demo_request)"
  "HasPrefix (Path (rURL demo_request)) (''/'' @ sPathPrefix default_config)" "fst (rVersion demo_request) \<ge> 2"
proof -
  have "CanonicalHeaderKey ''Cookie'' = ''Cookie''"
    by (simp add: CanonicalHeaderKey_def is_token_def upper_def lower_def)
  moreover have "TrimSpace [] = []" by (rule TrimSpace_id) simp
  ultimately show "request_token (rHeader demo_request) = ''kx''"
    by (simp add: request_token_def Get_def canonical_names demo_request_def JwtHeaderPrefix_def HasPrefix_def)
  show "\<not> isWebsocket (rHeader demo_request)"
    by (simp add: isWebsocket_def Get_def canonical_names demo_request_def)
qed (simp_all add: demo_request_def default_config_def path_url_def HasPrefix_def)


text \<open>The destinations of \<^verbatim>\<open>restrict_to\<close> are effective. A server that was given such entries and no
  rule file hands no client to the reverse tunnel manager, and the only targets it dials over TCP
  or UDP are the listed ones. A Unix socket is not covered: it is dialled by its path, while the
  rules look at the host and port of the claims.\<close>

theorem restrict_to_effective:
  assumes "literal_regexps Compile" "\<forall>e \<in> set restrictTo. ascii e" "\<forall>p \<in> set paths. literal p"
    and "restrictTo \<noteq> []"
    and "tunnel_claims (ServeHTTP pu pc gu cfg (NewServer_rules Compile None restrictTo paths) r hijack) =
      Some claims"
  shows "handle_tunnel dial claims src \<noteq> ToManager \<and>
    (isForward (Protocol claims) \<longrightarrow> fst (target_of claims) \<noteq> ''unix'' \<longrightarrow>
       (\<exists>e \<in> set restrictTo. \<exists>h p. SplitHostPort e = Inr (h, p) \<and>
          snd (target_of claims) = hostport h (parse_port p)))"
proof -
  have v: "\<not> isReverse (Protocol claims) \<and>
      (\<exists>e \<in> set restrictTo. \<exists>p. SplitHostPort e = Inr (Remote claims, p) \<and> Port claims = parse_port p)"
    using ServeHTTP_claims [OF assms(5)] cli_rules_decide [OF assms(1-3)] assms(4) by blast
  moreover have "snd (target_of claims) = hostport (Remote claims) (Port claims)" if "fst (target_of claims) \<noteq> ''unix''"
    using that by (auto simp: target_of_def split: option.splits)
  moreover have "handle_tunnel dial claims src \<noteq> ToManager"
    using v by (auto simp: handle_tunnel_def split: sum.split)
  ultimately show ?thesis by metis
qed

lemma demo_restricted:
  assumes "cfg = default_config\<lparr>sRestrictTo := rs\<rparr>"
  shows "tunnel_claims (ServeHTTP demo_unverified demo_parse demo_gorilla cfg
    (NewServer_rules demo_compile None [''h:1''] []) demo_request (Inl EOF)) = Some demo_claims"
proof -
  have "Validate (NewServer_rules demo_compile None [''h:1''] []) demo_claims path auth cn" for path auth cn
  proof (subst cli_rules_decide [OF demo_compile_literal])
    have "SplitHostPort ''h:1'' = Inr (''h'', ''1'')" "\<not> isReverse (Protocol demo_claims)" by code_simp+
    moreover have "parse_port ''1'' = 1" by (simp add: parse_port_def ParseUint_def)
    ultimately show "([] = [] \<or> (\<exists>p \<in> set []. HasPrefix path (''/'' @ TrimPrefix p ''/''))) \<and>
      ([''h:1''] = [] \<or> \<not> isReverse (Protocol demo_claims) \<and> (\<exists>r \<in> set [''h:1'']. \<exists>p.
         SplitHostPort r = Inr (Remote demo_claims, p) \<and> Port demo_claims = parse_port p))"
      by (simp add: demo_claims_def tcp_claims_def)
  qed auto
  moreover have "parseJWTClaims demo_unverified demo_parse cfg ''kx'' = Inr demo_claims"
    by (simp add: assms parseJWTClaims_def parseUnverified_def demo_unverified_def default_config_def)
  moreover have "sPathPrefix cfg = sPathPrefix default_config" by (simp add: assms)
  ultimately show ?thesis using demo_request_facts by (simp add: ServeHTTP_def Let_def)
qed

lemma demo_forward: "isForward (Protocol demo_claims)" "fst (target_of demo_claims) \<noteq> ''unix''"
  by code_simp+

theorem restrict_to_effective_witness:
  "handle_tunnel (\<lambda>n a. Inl EOF) demo_claims NilAddr \<noteq> ToManager \<and>
   (\<exists>e \<in> set [''h:1'']. \<exists>h p. SplitHostPort e = Inr (h, p) \<and>
      snd (target_of demo_claims) = hostport h (parse_port p))"
proof -
  have "\<forall>e \<in> set [''h:1'']. ascii e" "\<forall>p \<in> set []. literal p" by auto
  then show ?thesis
    using restrict_to_effective [OF demo_compile_literal _ _ _ demo_restricted [OF refl], of "\<lambda>n a. Inl EOF" NilAddr]
      demo_forward by auto
qed

end
