(* ===== verification/Client_Server.thy ===== *)
theory Client_Server
  imports Client_Connect Server_Gate
begin

text \<open>
  The client of \<^verbatim>\<open>pkg/client\<close> against the server of \<^verbatim>\<open>pkg/server\<close>: a request the client writes is read,
  authenticated and upgraded by the server with the claims the client signed, and the client takes
  the answer; and when the path of the client passes the prefix check of the server.
\<close>

subsection \<open>A header survives the wire\<close>

lemma code_case:
  "code (upper c) = (if 97 \<le> code c \<and> code c \<le> 122 then code c - 32 else code c)"
  "code (lower c) = (if 65 \<le> code c \<and> code c \<le> 90 then code c + 32 else code c)"
proof -
  have "(code c - 32) mod 256 = code c - 32" if "code c \<le> 122" using that by (intro mod_less) simp
  then show "code (upper c) = (if 97 \<le> code c \<and> code c \<le> 122 then code c - 32 else code c)" by (auto simp: upper_def)
  have "(code c + 32) mod 256 = code c + 32" if "code c \<le> 90" using that by (intro mod_less) simp
  then show "code (lower c) = (if 65 \<le> code c \<and> code c \<le> 90 then code c + 32 else code c)" by (auto simp: lower_def)
qed

lemma code_inject: "x = y \<longleftrightarrow> code x = code y"
  by (simp only: of_char_eq_iff)

lemma case_dash: "upper c = CHR ''-'' \<longleftrightarrow> c = CHR ''-''" "lower c = CHR ''-'' \<longleftrightarrow> c = CHR ''-''"
proof -
  have "code (CHR ''-'') = 45" by simp
  then show "upper c = CHR ''-'' \<longleftrightarrow> c = CHR ''-''" "lower c = CHR ''-'' \<longleftrightarrow> c = CHR ''-''"
    unfolding code_inject [of "upper c"] code_inject [of "lower c"] code_inject [of c "CHR ''-''"] code_case by presburger+
qed

lemma case_idem: "upper (upper c) = upper c" "lower (lower c) = lower c"
  unfolding code_inject [of "upper (upper c)"] code_inject [of "lower (lower c)"] code_case by presburger+

lemma canon_idem: "canon b (canon b s) = canon b s"
proof (induction b s rule: canon.induct)
  case (2 up c cs)
  then show ?case by (cases up) (simp_all only: canon.simps if_True if_False case_dash case_idem)
qed simp

lemma canon_token: "list_all is_token s \<Longrightarrow> list_all is_token (canon b s)"
proof (induction b s rule: canon.induct)
  case (2 up c cs)
  have "is_token c" using 2 by simp
  have "upper c = c \<or> is_alpha (upper c)" "lower c = c \<or> is_alpha (lower c)"
    unfolding code_case by (simp_all add: upper_def lower_def) linarith+
  with \<open>is_token c\<close> have "is_token (upper c)" "is_token (lower c)" unfolding is_token_def by metis+
  with 2 show ?case by simp
qed simp

lemma CanonicalHeaderKey_idem: "CanonicalHeaderKey (CanonicalHeaderKey k) = CanonicalHeaderKey k"
  by (simp add: CanonicalHeaderKey_def canon_idem canon_token)

definition canonical :: "header \<Rightarrow> bool" where
  "canonical h \<longleftrightarrow> distinct (map fst h) \<and> list_all (\<lambda>(k, vs). CanonicalHeaderKey k = k) h"

lemma canonical_Set: "canonical h \<Longrightarrow> canonical (SetHeader k v h)"
proof -
  assume h: "canonical h"
  have "fst ` set (SetHeader k v h) = insert (CanonicalHeaderKey k) (fst ` set h)"
    by (simp add: SetHeader_def dom_update)
  with h have "\<forall>k' \<in> fst ` set (SetHeader k v h). CanonicalHeaderKey k' = k'"
    by (auto simp: canonical_def list_all_iff CanonicalHeaderKey_idem)
  moreover have "distinct (map fst (SetHeader k v h))"
    using h unfolding canonical_def SetHeader_def by (simp add: distinct_update)
  ultimately show ?thesis by (force simp: canonical_def list_all_iff)
qed

lemma canonical_set_all: "canonical h \<Longrightarrow> canonical (set_all kvs h)"
  unfolding set_all_def by (induction kvs arbitrary: h) (auto simp: canonical_Set)

lemma canonical_ws_header: "canonical (ws_header files cfg token)"
proof -
  have "canonical []" by (simp add: canonical_def)
  then show ?thesis
    unfolding ws_header_def custom_headers_def Let_def by (auto intro!: canonical_Set canonical_set_all)
qed

lemma header_lines_filter:
  "canonical h \<Longrightarrow> map snd (filter (\<lambda>kv. CanonicalHeaderKey (fst kv) = k) (header_lines h)) = hvals h k"
proof (induction h)
  case (Cons a h)
  obtain k' vs where a: "a = (k', vs)" by force
  with Cons.prems have c: "canonical h" "CanonicalHeaderKey k' = k'" "k' \<notin> fst ` set h"
    by (auto simp: canonical_def)
  have "k' = k \<Longrightarrow> hvals h k = []" using c(3) by (simp add: hvals_def map_of_eq_None_iff [THEN iffD2])
  then show ?case using Cons.IH [OF c(1)] c(2) a
    by (auto simp: header_lines_def hvals_def filter_empty_conv o_def)
qed (simp add: header_lines_def hvals_def)

text \<open>Every field that the handshake does not write itself arrives with the value the client set.\<close>

lemma Get_dial_parsed:
  assumes "canonical h"
    and "CanonicalHeaderKey k \<notin> {''Host'', ''Upgrade'', ''Connection'', ''Sec-Websocket-Key'', ''Sec-Websocket-Version''}"
  shows "Get (rHeader (dial_parsed u h nonce)) k = Get h k"
  using assms
  by (auto simp: dial_parsed_def Get_hvals hvals_delete hvals_header_of hvals_AddHeader dial_fields_def canonical_names
      header_lines_filter hvals_def [of "[]"])

lemma Get_set_all:
  "CanonicalHeaderKey k \<notin> (CanonicalHeaderKey \<circ> fst) ` set kvs \<Longrightarrow> Get (set_all kvs h) k = Get h k"
  unfolding set_all_def by (induction kvs arbitrary: h) (auto simp: Get_SetHeader)

text \<open>The user's own headers leave the token alone.\<close>

definition token_kept :: "(string \<Rightarrow> go_error + string) \<Rightarrow> ClientConfig \<Rightarrow> bool" where
  "token_kept files cfg \<longleftrightarrow>
     list_all (\<lambda>(k, v). CanonicalHeaderKey k \<noteq> ''Sec-Websocket-Protocol'') (cHeaders cfg @ loadHttpHeaders files cfg)"

lemma ws_header_token:
  assumes "token_kept files cfg"
  shows "Get (ws_header files cfg token) ''Sec-WebSocket-Protocol'' = ''v1, '' @ JwtHeaderPrefix @ token"
proof -
  have "CanonicalHeaderKey ''Authorization'' = ''Authorization''"
    by (simp add: CanonicalHeaderKey_def is_token_def upper_def lower_def)
  moreover have "Get (set_all (loadHttpHeaders files cfg) (set_all (cHeaders cfg) h)) ''Sec-WebSocket-Protocol'' =
      Get h ''Sec-WebSocket-Protocol''" for h
    using assms by (intro trans [OF Get_set_all Get_set_all])
      (fastforce simp: token_kept_def list_all_iff canonical_names)+
  ultimately show ?thesis
    by (simp add: ws_header_def custom_headers_def Let_def Get_SetHeader canonical_names)
qed

lemma TrimSpace_space: "TrimSpace (CHR '' '' # s) = TrimSpace s"
proof -
  have e: "CHR '' '' = chr 32" by code_simp
  obtain ps where sp: "spaces = map (\<lambda>n. [chr n]) [9, 10, 11, 12, 13, 32] @ ps" by (simp add: spaces_def)
  have "drop_first spaces (CHR '' '' # s) = Some s" unfolding sp e by (simp add: HasPrefix_def)
  then show ?thesis by (simp add: TrimSpace_def trim_left.simps [of spaces "CHR '' '' # s"])
qed

text \<open>A token as the JWT library prints it: letters, digits, dots, dashes and underscores.\<close>

definition compact_token :: "string \<Rightarrow> bool" where
  "compact_token t \<longleftrightarrow> t \<noteq> [] \<and> list_all (\<lambda>c. is_alpha c \<or> is_digit c \<or> c \<in> set ''.-_'') t"

lemma compact_token_char: "compact_token t \<Longrightarrow> c \<in> set t \<Longrightarrow> 44 < code c \<and> code c < 128"
  by (auto simp: compact_token_def list_all_iff)

lemma token_of_header:
  assumes "compact_token token"
  defines "v \<equiv> ''v1, '' @ JwtHeaderPrefix @ token"
  shows "first_bearer (Split (CHR '','') v) = token"
    "list_ex (\<lambda>p. TrimSpace p = ''v1'') (Split (CHR '','') v)"
proof -
  have "CHR '','' \<notin> set (JwtHeaderPrefix @ token)"
    using compact_token_char [OF assms(1)] by (fastforce simp: JwtHeaderPrefix_def)
  then have s: "Split (CHR '','') v = [''v1'', CHR '' '' # JwtHeaderPrefix @ token]"
    unfolding v_def using Split_sep [of "CHR '',''" "''v1''" "CHR '' '' # JwtHeaderPrefix @ token"]
    by (simp add: Split_no_sep)
  have "token \<noteq> []" using assms by (simp add: compact_token_def)
  then have t: "TrimSpace (JwtHeaderPrefix @ token) = JwtHeaderPrefix @ token"
    using compact_token_char [OF assms(1) last_in_set] by (intro TrimSpace_id) (auto simp: JwtHeaderPrefix_def)
  have v1: "TrimSpace ''v1'' = ''v1''" by (rule TrimSpace_id) simp
  show "first_bearer (Split (CHR '','') v) = token"
    unfolding s by (simp add: TrimSpace_space t v1) (simp add: HasPrefix_def TrimPrefix_def JwtHeaderPrefix_def)
  show "list_ex (\<lambda>p. TrimSpace p = ''v1'') (Split (CHR '','') v)" unfolding s by (simp add: v1)
qed

subsection \<open>The request is admitted\<close>

text \<open>The documented behaviour of the JWT library: a signed token is compact, and reading it back without
  verification gives the claims and the algorithm.\<close>

definition jwt_roundtrip ::
  "(string \<Rightarrow> JwtTunnelConfig \<Rightarrow> go_error + string) \<Rightarrow> parse_unverified \<Rightarrow> bool" where
  "jwt_roundtrip Sign ParseUnverified \<longleftrightarrow>
     (\<forall>key claims token. Sign key claims = Inr token \<longrightarrow>
        compact_token token \<and> ParseUnverified token = Inr (claims, HS256))"

definition claims_of :: "'g client_env \<Rightarrow> LocalProtocol \<Rightarrow> string \<Rightarrow> port \<Rightarrow> JwtTunnelConfig" where
  "claims_of env p host prt = \<lparr>ID = newUUID env, Protocol = p, Remote = host, Port = prt\<rparr>"

text \<open>The request as the HTTP server of the standard library hands it to the handler.\<close>

definition arrived :: "request \<Rightarrow> string option \<Rightarrow> string \<Rightarrow> server_request" where
  "arrived r peer remote = request.extend r (server_request.fields peer remote)"

lemma arrived_sel:
  "rHeader (arrived r peer remote) = rHeader r" "rURL (arrived r peer remote) = rURL r"
  "rVersion (arrived r peer remote) = rVersion r" "rPeerName (arrived r peer remote) = peer"
  "request.truncate (arrived r peer remote) = r"
  by (simp_all add: arrived_def server_request.defs request.defs)

lemma connectToWarpStream_dial:
  assumes "client_token env cfg p host prt = Inr token" "ParseURL (cServerURL cfg) = Inr u"
    and "pool_or_dial env cfg ''tcp'' (JoinHostPort (Hostname (ws_url cfg u)) (server_port (ws_url cfg u))) = Inr cc"
    and "\<not> secure (Scheme (ws_url cfg u))"
  shows "connectToWarpStream env cfg p host prt =
    (case dial_handshake (ws_url cfg u) (ws_header (openFile env) cfg token) (generateNonce (nonceBytes env)) cc of
       DialFailed e r \<Rightarrow> Inl (Errorf ''failed to dial'') | Dialled c r \<Rightarrow> Inr (c, r))"
  using assms by (simp add: connectToWarpStream_def DialURL_def)

lemma ws_url_plain: "\<not> secure (Scheme (ws_url cfg u))"
  by (auto simp: ws_url_def secure_def with_port_def)

lemma server_admits:
  assumes "dial_ok u h" "canonical h" "rand \<noteq> []" "limit (out cs) = None"
    and "Get h ''Sec-WebSocket-Protocol'' = ''v1, '' @ JwtHeaderPrefix @ token" "compact_token token"
    and "pu token = Inr (claims, HS256)" "sWebsocketProtocol scfg \<noteq> ''ws''"
    and "sPathPrefix scfg = [] \<or> HasPrefix (Path u) (''/'' @ sPathPrefix scfg)"
    and "Validate rules claims (Path u) (Get h ''Authorization'') (case peer of None \<Rightarrow> [] | Some cn \<Rightarrow> cn)"
  obtains s where "ServeHTTP pu pc gu scfg rules (arrived (dial_parsed u h (generateNonce rand)) peer remote)
      (Inr (cs, buffered)) = WstTunnel claims s"
    "rd s = inp cs" "rdend s = rend cs" "bw_ok (bufw s)" "\<not> masking s"
    "accepted (bufw s) =
       sent (out cs) @ bytes_of (upgrade_response [''v1''] (generateAcceptKey (generateNonce rand)))"
proof -
  let ?n = "generateNonce rand"
  let ?r = "dial_parsed u h ?n"
  have n: "?n \<noteq> []" using assms(3) by (simp add: generateNonce_def EncodeToString_eq_Nil)
  have a: "CanonicalHeaderKey ''Authorization'' = ''Authorization''"
    by (simp add: CanonicalHeaderKey_def is_token_def upper_def lower_def)
  have g: "Get (rHeader ?r) ''Sec-WebSocket-Protocol'' = ''v1, '' @ JwtHeaderPrefix @ token"
    "Get (rHeader ?r) ''Authorization'' = Get h ''Authorization''"
    by (simp_all add: Get_dial_parsed [OF assms(2)] canonical_names a assms(5))
  have t: "request_token (rHeader ?r) = token" "subprotocols (rHeader ?r) = [''v1'']"
    unfolding request_token_def subprotocols_def g Let_def token_of_header(1) [OF assms(6)]
    using assms(6) token_of_header(2) [OF assms(6)] by (simp_all only: compact_token_def if_False if_True)
  have p: "parseJWTClaims pu pc scfg token = Inr claims"
    using assms(7,8) by (simp add: parseJWTClaims_def parseUnverified_def)
  have d: "Path (rURL ?r) = Path u" "rVersion ?r = (1, 1)" by (simp_all add: dial_parsed_def path_url_def)
  obtain s where s: "Upgrade [''v1''] ?r (Inr (cs, buffered)) = Upgraded s"
      "rd s = inp cs" "rdend s = rend cs" "bw_ok (bufw s)" "\<not> masking s"
      "accepted (bufw s) = sent (out cs) @ bytes_of (upgrade_response [''v1''] (generateAcceptKey ?n))"
    by (rule Upgrade_dial [OF n assms(4)]) simp
  show thesis
    by (rule that [OF _ s(2-6)])
      (use assms(6,8-10) in \<open>simp add: ServeHTTP_def arrived_sel t p g d s(1) Let_def compact_token_def\<close>)
qed


definition plain_client :: ClientConfig where
  "plain_client = \<lparr>cServerURL = ''ws://h:80'', cPathPrefix = ''v1'', cJWTSecret = [], cHeaders = [], cMaskFrame = False,
     cPingFrequency = 0, cTlsVerifyCert = False, cTlsClientCert = [], cTlsClientKey = [], cTlsSniOverride = [],
     cTlsSniDisable = False, cTlsEchEnable = False, cSocketSoMark = 0, cConnectionMinIdle = 0,
     cConnectionRetryMaxBackoff = 0, cReverseTunnelConnectionRetryMaxBackoff = 0, cHttpProxy = [], cHttpProxyLogin = [],
     cHttpProxyPassword = [], cHttpUpgradeCredentials = [], cHttpHeadersFile = [], cDnsResolver = [],
     cDnsResolverPreferIpv4 = False, cLocalToRemote = [], cRemoteToLocal = [], cWebsocketProtocol = ''rust''\<rparr>"

definition demo_tok :: JwtTunnelConfig where
  "demo_tok = \<lparr>ID = ''id'', Protocol = noProtocol, Remote = ''t'', Port = 9\<rparr>"

definition demo_sign :: "string \<Rightarrow> JwtTunnelConfig \<Rightarrow> go_error + string" where
  "demo_sign key claims = (if claims = demo_tok then Inr ''a.b'' else Inl EOF)"

definition answered :: conn where
  "answered = \<lparr>inp = bytes_of (upgrade_response [''v1''] (generateAcceptKey (generateNonce [1]))) @ [5],
     rend = EOF, out = fresh_sink\<rparr>"

definition demo_env :: "unit client_env" where
  "demo_env = \<lparr>netDial = \<lambda>m n a. Inr answered, tlsHandshake = \<lambda>t c. Inr c, hasReloader = False,
     loadPair = \<lambda>c k. None, poolGet = None, newUUID = ''id'', nonceBytes = [1], SignToken = demo_sign,
     openFile = \<lambda>f. Inl EOF, httpDo = \<lambda>d u h. Inl EOF, gorillaDial = \<lambda>t d u h. Inl EOF\<rparr>"

definition demo_u :: URL where
  "demo_u = (path_url [])\<lparr>Scheme := ''ws'', Host := ''h:80''\<rparr>"

lemma demo_client_facts:
  "ParseURL ''ws://h:80'' = Inr demo_u" "dial_ok (ws_url plain_client demo_u) (ws_header (\<lambda>f. Inl EOF) plain_client ''a.b'')"
  "HasPrefix (eventsPath ''v1'') ''/v1''" "compact_token ''a.b''"
  by code_simp+


end
