(* ===== verification/Tunnel_Arg.thy ===== *)
theory Tunnel_Arg
  imports Client_Server Reverse_Manager
begin

text \<open>
  The tunnel arguments \<^verbatim>\<open>-L\<close> and \<^verbatim>\<open>-R\<close>, \<^verbatim>\<open>pkg/client/config.go\<close>: a scheme, a local and a remote end, and
  options. A negative timeout is converted from a floating point number to an unsigned integer, which
  Go leaves to the implementation; the result of that conversion is the argument \<open>conv\<close>.

  The lemmas show which protocol a parsed argument selects, that printing and parsing the ends of a
  tunnel agree, and where the server listens for a reverse tunnel.
\<close>

subsection \<open>Options\<close>

definition whole_seconds :: "(int \<Rightarrow> u64) \<Rightarrow> int \<Rightarrow> u64" where
  "whole_seconds conv d =
     (if d < 0 then conv d
      else case to_double (nat d mod 1000000000) 1000000000 of (n, e) \<Rightarrow>
        (case to_double (nat d div 1000000000 * e + n) e of (m, e') \<Rightarrow> of_nat (m div e')))"

definition sub_seconds :: "int \<Rightarrow> u32" where
  "sub_seconds d = of_int (if d < 0 then - ((- d) mod 1000000000) else d mod 1000000000)"

definition parseDurationSec :: "(int \<Rightarrow> u64) \<Rightarrow> string \<Rightarrow> go_error + Duration option" where
  "parseDurationSec conv s =
     (if s = [] then Inr None
      else case ParseDuration (s @ ''s'') of
        Some d \<Rightarrow> Inr (Some \<lparr>Secs = whole_seconds conv d, Nanos = sub_seconds d\<rparr>)
      | None \<Rightarrow>
          (case ParseUint 64 s of
             (n, None) \<Rightarrow> Inr (Some \<lparr>Secs = of_nat n, Nanos = 0\<rparr>)
           | (n, Some e) \<Rightarrow> Inl (Errorf ''invalid syntax'')))"

type_synonym tunnel_options = "(string \<times> string) list"

definition split_options :: "string \<Rightarrow> string \<times> tunnel_options" where
  "split_options info =
     (case cut_at (CHR ''?'') info of
        (i, None) \<Rightarrow> (i, [])
      | (i, Some q) \<Rightarrow> (i, ParseQuery q))"

definition getTimeout :: "(int \<Rightarrow> u64) \<Rightarrow> tunnel_options \<Rightarrow> Duration option" where
  "getTimeout conv opts =
     (case map_of opts ''timeout_sec'' of
        Some v \<Rightarrow> (case parseDurationSec conv v of Inl e \<Rightarrow> None | Inr d \<Rightarrow> d)
      | None \<Rightarrow> Some \<lparr>Secs = 30, Nanos = 0\<rparr>)"

definition option_value :: "tunnel_options \<Rightarrow> string \<Rightarrow> string" where
  "option_value opts k = (case map_of opts k of None \<Rightarrow> [] | Some v \<Rightarrow> v)"

definition getCredentials :: "tunnel_options \<Rightarrow> Credentials option" where
  "getCredentials opts =
     (if option_value opts ''login'' \<noteq> [] \<and> option_value opts ''password'' \<noteq> []
      then Some \<lparr>Username = option_value opts ''login'', Password = option_value opts ''password''\<rparr> else None)"

definition getProxyProtocol :: "tunnel_options \<Rightarrow> bool" where
  "getProxyProtocol opts \<longleftrightarrow> map_of opts ''proxy_protocol'' \<noteq> None"

subsection \<open>The ends\<close>

definition port_of :: "string \<Rightarrow> port" where
  "port_of s = of_nat (fst (ParseUint 16 s))"

definition parse_stdio :: "tunnel_options \<Rightarrow> string \<Rightarrow> go_error + LocalToRemote" where
  "parse_stdio opts info =
     (case SplitHostPort info of
        Inl e \<Rightarrow> Inl (Errorf ''invalid stdio target'')
      | Inr (host, p) \<Rightarrow>
          Inr \<lparr>ltrProtocol = noProtocol\<lparr>Stdio := Some \<lparr>stdioProxyProtocol = getProxyProtocol opts\<rparr>\<rparr>, ltrLocal = [],
               ltrRemote = host, ltrPort = port_of p\<rparr>)"

definition parse_unix :: "bool \<Rightarrow> tunnel_options \<Rightarrow> string \<Rightarrow> LocalToRemote" where
  "parse_unix isRev opts info =
     (case cut_at (CHR '':'') info of (localPath, r) \<Rightarrow>
      let remotePath = (case r of None \<Rightarrow> [] | Some p \<Rightarrow> p) in
      \<lparr>ltrProtocol =
         (if isRev then noProtocol\<lparr>ReverseUnix := Some \<lparr>rUnixPath = localPath\<rparr>\<rparr>
          else noProtocol\<lparr>Unix := Some \<lparr>unixPath = remotePath, unixProxyProtocol = getProxyProtocol opts\<rparr>\<rparr>),
       ltrLocal = localPath, ltrRemote = remotePath, ltrPort = 0\<rparr>)"

text \<open>The colons outside brackets separate; a rune is a string.\<close>

fun split_info :: "bool \<Rightarrow> string \<Rightarrow> string list \<Rightarrow> string list" where
  "split_info inBrackets cur [] = [cur]"
| "split_info inBrackets cur (r # rs) =
     (let b = (if r = ''['' then True else if r = '']'' then False else inBrackets) in
      if r = '':'' \<and> \<not> b then cur # split_info b [] rs else split_info b (cur @ r) rs)"

definition parse_ends :: "string \<Rightarrow> (string \<times> string \<times> string \<times> port) option" where
  "parse_ends info =
     (case split_info False [] (rune_strings info) of
        [lp] \<Rightarrow> Some (''127.0.0.1'', lp, ''0.0.0.0'', 0)
      | [lb, lp] \<Rightarrow> Some (lb, lp, ''0.0.0.0'', 0)
      | [lp, rh, rp] \<Rightarrow> Some (''127.0.0.1'', lp, rh, port_of rp)
      | [lb, lp, rh, rp] \<Rightarrow> Some (lb, lp, rh, port_of rp)
      | _ \<Rightarrow> None)"

definition protocol_for ::
  "(int \<Rightarrow> u64) \<Rightarrow> bool \<Rightarrow> tunnel_options \<Rightarrow> string \<Rightarrow> LocalProtocol option" where
  "protocol_for conv isRev opts proto =
     (let t = getTimeout conv opts; cr = getCredentials opts; pp = getProxyProtocol opts in
      if proto = ''tcp'' then
        Some (if isRev then noProtocol\<lparr>ReverseTcp := Some ()\<rparr>
              else noProtocol\<lparr>Tcp := Some \<lparr>tcpProxyProtocol = pp\<rparr>\<rparr>)
      else if proto = ''udp'' then
        Some (if isRev then noProtocol\<lparr>ReverseUdp := Some \<lparr>udpTimeout = t\<rparr>\<rparr>
              else noProtocol\<lparr>Udp := Some \<lparr>udpTimeout = t\<rparr>\<rparr>)
      else if proto = ''socks5'' then
        Some (if isRev then noProtocol\<lparr>ReverseSocks5 := Some \<lparr>socksTimeout = t, socksCredentials = cr\<rparr>\<rparr>
              else noProtocol\<lparr>Socks5 := Some \<lparr>socksTimeout = t, socksCredentials = cr\<rparr>\<rparr>)
      else if proto = ''http'' then
        Some (if isRev then noProtocol\<lparr>ReverseHttpProxy := Some \<lparr>socksTimeout = t, socksCredentials = cr\<rparr>\<rparr>
              else noProtocol\<lparr>HttpProxy := Some \<lparr>httpTimeout = t, httpCredentials = cr, httpProxyProtocol = pp\<rparr>\<rparr>)
      else if proto = ''tproxy+tcp'' then Some (noProtocol\<lparr>TProxyTcp := Some ()\<rparr>)
      else if proto = ''tproxy+udp'' then Some (noProtocol\<lparr>TProxyUdp := Some \<lparr>udpTimeout = t\<rparr>\<rparr>)
      else None)"

definition ParseTunnelArg :: "(int \<Rightarrow> u64) \<Rightarrow> string \<Rightarrow> bool \<Rightarrow> go_error + LocalToRemote" where
  "ParseTunnelArg conv arg isRev =
     (case Cut ''://'' arg of
        None \<Rightarrow> Inl (Errorf ''invalid tunnel format, missing ://'')
      | Some (proto, rest) \<Rightarrow>
          (case split_options rest of (info, opts) \<Rightarrow>
           if proto = ''stdio'' then parse_stdio opts info
           else if proto = ''unix'' then Inr (parse_unix isRev opts info)
           else case parse_ends info of
             None \<Rightarrow> Inl (Errorf (''invalid tunnel format: '' @ info))
           | Some (lb, lp, rh, rp) \<Rightarrow>
               (case protocol_for conv isRev opts proto of
                  None \<Rightarrow> Inl (Errorf (''unsupported protocol: '' @ proto))
                | Some p \<Rightarrow>
                    Inr \<lparr>ltrProtocol = p, ltrLocal = JoinHostPort (trim_chars ''[]'' lb) lp,
                         ltrRemote = trim_chars ''[]'' rh, ltrPort = rp\<rparr>)))"

subsection \<open>Kinds\<close>

definition kinds :: "LocalProtocol \<Rightarrow> bool list" where
  "kinds p = [Tcp p \<noteq> None, Udp p \<noteq> None, Stdio p \<noteq> None, Socks5 p \<noteq> None, TProxyTcp p \<noteq> None, TProxyUdp p \<noteq> None,
     HttpProxy p \<noteq> None, ReverseTcp p \<noteq> None, ReverseUdp p \<noteq> None, ReverseSocks5 p \<noteq> None,
     ReverseHttpProxy p \<noteq> None, ReverseUnix p \<noteq> None, Unix p \<noteq> None]"

definition one_kind :: "LocalProtocol \<Rightarrow> bool" where
  "one_kind p \<longleftrightarrow> length (filter id (kinds p)) = 1"

lemmas kind_defs = one_kind_def kinds_def noProtocol_def isReverse_def

lemma one_hot:
  "one_kind (noProtocol\<lparr>Tcp := Some a\<rparr>)" "\<not> isReverse (noProtocol\<lparr>Tcp := Some a\<rparr>)"
  "one_kind (noProtocol\<lparr>Udp := Some b\<rparr>)" "\<not> isReverse (noProtocol\<lparr>Udp := Some b\<rparr>)"
  "one_kind (noProtocol\<lparr>Stdio := Some c\<rparr>)" "\<not> isReverse (noProtocol\<lparr>Stdio := Some c\<rparr>)"
  "one_kind (noProtocol\<lparr>Socks5 := Some d\<rparr>)" "\<not> isReverse (noProtocol\<lparr>Socks5 := Some d\<rparr>)"
  "one_kind (noProtocol\<lparr>TProxyTcp := Some e\<rparr>)" "\<not> isReverse (noProtocol\<lparr>TProxyTcp := Some e\<rparr>)"
  "one_kind (noProtocol\<lparr>TProxyUdp := Some f\<rparr>)" "\<not> isReverse (noProtocol\<lparr>TProxyUdp := Some f\<rparr>)"
  "one_kind (noProtocol\<lparr>HttpProxy := Some g\<rparr>)" "\<not> isReverse (noProtocol\<lparr>HttpProxy := Some g\<rparr>)"
  "one_kind (noProtocol\<lparr>Unix := Some h\<rparr>)" "\<not> isReverse (noProtocol\<lparr>Unix := Some h\<rparr>)"
  "one_kind (noProtocol\<lparr>ReverseTcp := Some i\<rparr>)" "isReverse (noProtocol\<lparr>ReverseTcp := Some i\<rparr>)"
  "one_kind (noProtocol\<lparr>ReverseUdp := Some j\<rparr>)" "isReverse (noProtocol\<lparr>ReverseUdp := Some j\<rparr>)"
  "one_kind (noProtocol\<lparr>ReverseSocks5 := Some k\<rparr>)" "isReverse (noProtocol\<lparr>ReverseSocks5 := Some k\<rparr>)"
  "one_kind (noProtocol\<lparr>ReverseHttpProxy := Some l\<rparr>)" "isReverse (noProtocol\<lparr>ReverseHttpProxy := Some l\<rparr>)"
  "one_kind (noProtocol\<lparr>ReverseUnix := Some m\<rparr>)" "isReverse (noProtocol\<lparr>ReverseUnix := Some m\<rparr>)"
  by (simp_all add: kind_defs)

lemma no_protocol_sel: "Stdio noProtocol = None" "ReverseUnix noProtocol = None"
  by (simp_all add: noProtocol_def)

lemma protocol_for_kind:
  "protocol_for conv isRev opts proto = Some p \<Longrightarrow>
   one_kind p \<and> (isReverse p \<longleftrightarrow> isRev \<and> proto \<in> {''tcp'', ''udp'', ''socks5'', ''http''}) \<and>
   proto \<in> {''tcp'', ''udp'', ''socks5'', ''http'', ''tproxy+tcp'', ''tproxy+udp''} \<and> Stdio p = None \<and> ReverseUnix p = None"
  by (auto simp: protocol_for_def Let_def one_hot no_protocol_sel split: if_splits)

text \<open>C40. A tunnel argument that is accepted selects exactly one kind of tunnel, and a reverse kind exactly
  for a reverse argument with one of the five schemes that have a reverse form: a reverse argument
  with \<^verbatim>\<open>stdio\<close> or a transparent proxy scheme is accepted as a forward tunnel.\<close>

theorem tunnel_arg_kind:
  assumes "ParseTunnelArg conv arg isRev = Inr ltr"
  shows "\<exists>proto rest. Cut ''://'' arg = Some (proto, rest) \<and> one_kind (ltrProtocol ltr) \<and>
    (isReverse (ltrProtocol ltr) \<longleftrightarrow> isRev \<and> proto \<in> {''tcp'', ''udp'', ''socks5'', ''http'', ''unix''}) \<and>
    proto \<in> {''tcp'', ''udp'', ''socks5'', ''http'', ''unix'', ''stdio'', ''tproxy+tcp'', ''tproxy+udp''}"
proof -
  obtain proto rest where c: "Cut ''://'' arg = Some (proto, rest)"
    using assms by (auto simp: ParseTunnelArg_def split: option.splits)
  obtain info opts where o: "split_options rest = (info, opts)" by force
  consider "proto = ''stdio''" | "proto = ''unix''" | "proto \<noteq> ''stdio''" "proto \<noteq> ''unix''" by blast
  then show ?thesis
  proof cases
    case 1
    then show ?thesis using assms c o
      by (auto simp: ParseTunnelArg_def parse_stdio_def one_hot split: sum.splits)
  next
    case 2
    then show ?thesis using assms c o
      by (cases isRev) (auto simp: ParseTunnelArg_def parse_unix_def one_hot Let_def split: prod.splits)
  next
    case 3
    then have "protocol_for conv isRev opts proto = Some (ltrProtocol ltr)"
      using assms c o by (auto simp: ParseTunnelArg_def split: option.splits)
    note k = protocol_for_kind [OF this]
    then have "isReverse (ltrProtocol ltr) \<longleftrightarrow> isRev \<and> proto \<in> {''tcp'', ''udp'', ''socks5'', ''http'', ''unix''}"
      using 3(2) by (simp only: insert_iff empty_iff simp_thms)
    moreover have "{''tcp'', ''udp'', ''socks5'', ''http'', ''tproxy+tcp'', ''tproxy+udp''} \<subseteq>
        {''tcp'', ''udp'', ''socks5'', ''http'', ''unix'', ''stdio'', ''tproxy+tcp'', ''tproxy+udp''}" by simp
    then have "proto \<in> {''tcp'', ''udp'', ''socks5'', ''http'', ''unix'', ''stdio'', ''tproxy+tcp'', ''tproxy+udp''}"
      by (rule subsetD) (use k in \<open>elim conjE\<close>)
    ultimately show ?thesis using c k by (intro exI [of _ proto] exI [of _ rest] conjI) (elim conjE, assumption)+
  qed
qed

subsection \<open>Printing and parsing the ends\<close>

definition plain_end :: "string \<Rightarrow> bool" where
  "plain_end h \<longleftrightarrow> list_all (\<lambda>c. code c < 128 \<and> c \<notin> set ''[]?'') h"

definition plain_port :: "string \<Rightarrow> bool" where
  "plain_port p \<longleftrightarrow> plain_end p \<and> CHR '':'' \<notin> set p"

definition end_text :: "string \<Rightarrow> string" where
  "end_text h = (if CHR '':'' \<in> set h then ''['' @ h @ '']'' else h)"

definition ends_text :: "string \<Rightarrow> string \<Rightarrow> string \<Rightarrow> port \<Rightarrow> string" where
  "ends_text lb lp rh rp = end_text lb @ '':'' @ lp @ '':'' @ end_text rh @ '':'' @ itoa (unat rp)"

definition query_text :: "string option \<Rightarrow> string" where
  "query_text q = (case q of None \<Rightarrow> [] | Some s \<Rightarrow> CHR ''?'' # s)"

definition query_options :: "string option \<Rightarrow> tunnel_options" where
  "query_options q = (case q of None \<Rightarrow> [] | Some s \<Rightarrow> ParseQuery s)"

abbreviation singles :: "string \<Rightarrow> string list" where
  "singles s \<equiv> map (\<lambda>c. [c]) s"

lemma split_info_outside:
  "list_all (\<lambda>c. c \<notin> set ''[]:'') s \<Longrightarrow> split_info False cur (singles s @ rs) = split_info False (cur @ s) rs"
  by (induction s arbitrary: cur) (auto simp: Let_def)

lemma split_info_inside:
  "list_all (\<lambda>c. c \<notin> set ''[]'') s \<Longrightarrow> split_info True cur (singles s @ rs) = split_info True (cur @ s) rs"
  by (induction s arbitrary: cur) (auto simp: Let_def)

lemma split_info_end:
  assumes "plain_end h"
  shows "split_info False cur (singles (end_text h) @ rs) = split_info False (cur @ end_text h) rs"
proof (cases "CHR '':'' \<in> set h")
  case True
  have "list_all (\<lambda>c. c \<notin> set ''[]'') h" using assms by (auto simp: plain_end_def list_all_iff)
  from split_info_inside [OF this] True show ?thesis by (simp add: end_text_def Let_def)
next
  case False
  then have "list_all (\<lambda>c. c \<notin> set ''[]:'') h" using assms by (auto simp: plain_end_def list_all_iff)
  from split_info_outside [OF this] False show ?thesis by (simp add: end_text_def)
qed

lemma plain_port_end: "plain_port p \<Longrightarrow> plain_end p \<and> end_text p = p"
  by (simp add: plain_port_def end_text_def)

lemma split_info_port:
  "plain_port p \<Longrightarrow> split_info False cur (singles p @ rs) = split_info False (cur @ p) rs"
  using split_info_end [of p cur rs] plain_port_end [of p] by simp

lemma split_info_colon: "split_info False cur ([CHR '':''] # rs) = cur # split_info False [] rs"
  by (simp add: Let_def)

lemma itoa_plain: "plain_port (itoa n)"
proof -
  have "code c < 128 \<and> c \<notin> set ''[]?:''" if "c \<in> set (itoa n)" for c using itoa_digits [OF that] by auto
  then show ?thesis by (force simp: plain_port_def plain_end_def list_all_iff)
qed

lemma trim_end_text: "plain_end h \<Longrightarrow> trim_chars ''[]'' (end_text h) = h"
proof -
  assume p: "plain_end h"
  then have b: "c \<notin> set ''[]''" if "c \<in> set h" for c using that by (auto simp: plain_end_def list_all_iff)
  then have t: "trim_chars ''[]'' h = h" by (intro trim_chars_id) (meson hd_in_set last_in_set)
  show ?thesis
  proof (cases "CHR '':'' \<in> set h")
    case True
    then obtain x xs where h: "h = x # xs" by (cases h) auto
    then have "x \<notin> set ''[]''" using b by simp
    then have "trim_chars ''[]'' (''['' @ h @ '']'') = trim_chars ''[]'' h"
      by (simp add: trim_chars_def h)
    with t True show ?thesis by (simp add: end_text_def)
  qed (simp add: end_text_def t)
qed

lemma end_text_ascii: "plain_end h \<Longrightarrow> list_all (\<lambda>c. code c < 128 \<and> c \<noteq> CHR ''?'') (end_text h)"
  by (auto simp: end_text_def plain_end_def list_all_iff)

lemma port_of_itoa: "port_of (itoa (unat p)) = p"
proof -
  have "unat p < 2 ^ 16" using unsigned_less [of p] by simp
  then have "ParseUint 16 (itoa (unat p)) = (unat p, None)" by (intro ParseUint_itoa) simp
  then show ?thesis by (simp add: port_of_def)
qed

lemma parse_ends_text:
  assumes "plain_end lb" "plain_port lp" "plain_end rh"
  shows "parse_ends (ends_text lb lp rh rp) = Some (end_text lb, lp, end_text rh, rp)"
    "CHR ''?'' \<notin> set (ends_text lb lp rh rp)"
proof -
  note ps = plain_port_end [OF assms(2)] plain_port_end [OF itoa_plain [of "unat rp"]]
  have a: "list_all (\<lambda>c. code c < 128 \<and> c \<noteq> CHR ''?'') (ends_text lb lp rh rp)"
    using end_text_ascii [OF assms(1)] end_text_ascii [OF assms(3)] end_text_ascii [of lp]
      end_text_ascii [of "itoa (unat rp)"] ps by (simp add: ends_text_def)
  then show "CHR ''?'' \<notin> set (ends_text lb lp rh rp)" by (auto simp: list_all_iff)
  have "rune_strings (ends_text lb lp rh rp) = singles (ends_text lb lp rh rp)"
    by (rule rune_strings_ascii) (use a in \<open>auto simp: list_all_iff\<close>)
  also have "\<dots> = singles (end_text lb) @ [CHR '':''] # singles lp @ [CHR '':''] #
      singles (end_text rh) @ [CHR '':''] # singles (itoa (unat rp)) @ []"
    by (simp add: ends_text_def)
  finally show "parse_ends (ends_text lb lp rh rp) = Some (end_text lb, lp, end_text rh, rp)"
    using assms itoa_plain by (simp only: parse_ends_def split_info_end split_info_port split_info_colon append_Nil
        split_info.simps(1) list.case option.inject prod.inject port_of_itoa simp_thms)
qed

lemma split_options_text:
  assumes "CHR ''?'' \<notin> set info"
  shows "split_options (info @ query_text q) = (info, query_options q)"
  using assms cut_at_absent [OF assms] cut_at_present [OF assms]
  by (auto simp: split_options_def query_text_def query_options_def split: option.split)

lemma Cut_scheme: "CHR '':'' \<notin> set proto \<Longrightarrow> Cut ''://'' (proto @ ''://'' @ rest) = Some (proto, rest)"
  by (induction proto) (auto simp: HasPrefix_def)

lemma ParseTunnelArg_text:
  assumes "protocol_for conv isRev (query_options q) proto = Some p" "parse_ends info = Some (lb, lp, rh, rp)"
    and "CHR ''?'' \<notin> set info"
  shows "ParseTunnelArg conv (proto @ ''://'' @ info @ query_text q) isRev =
    Inr \<lparr>ltrProtocol = p, ltrLocal = JoinHostPort (trim_chars ''[]'' lb) lp, ltrRemote = trim_chars ''[]'' rh, ltrPort = rp\<rparr>"
proof -
  from protocol_for_kind [OF assms(1)] have "proto \<in> {''tcp'', ''udp'', ''socks5'', ''http'', ''tproxy+tcp'', ''tproxy+udp''}"
    by (elim conjE)
  then have pr: "CHR '':'' \<notin> set proto" and "proto \<noteq> ''stdio''" "proto \<noteq> ''unix''" by (elim insertE emptyE; simp)+
  then show ?thesis
    unfolding ParseTunnelArg_def Cut_scheme [OF pr] option.case prod.case split_options_text [OF assms(3)]
    by (simp add: assms)
qed

text \<open>C26. Printing and parsing the ends of a tunnel agree. For every scheme, direction and query, every bind
  address and host, IPv6 addresses in brackets included, the argument written out from them is
  parsed back to the same local address, host, port, and the protocol that the options describe.\<close>

theorem tunnel_arg_roundtrip:
  assumes "protocol_for conv isRev (query_options q) proto = Some p"
    and "plain_end lb" "plain_port lp" "plain_end rh"
  shows "ParseTunnelArg conv (proto @ ''://'' @ ends_text lb lp rh rp @ query_text q) isRev =
    Inr \<lparr>ltrProtocol = p, ltrLocal = JoinHostPort lb lp, ltrRemote = rh, ltrPort = rp\<rparr>"
  using ParseTunnelArg_text [OF assms(1) parse_ends_text [OF assms(2-4)]] trim_end_text assms(2,4) by simp

theorem tunnel_arg_roundtrip_witness:
  "ParseTunnelArg (\<lambda>d. 0) (''udp'' @ ''://'' @ ends_text ''::1'' ''53'' ''fd00::2'' 5353 @ query_text (Some ''timeout_sec=''))
     False =
   Inr \<lparr>ltrProtocol = noProtocol\<lparr>Udp := Some \<lparr>udpTimeout = None\<rparr>\<rparr>, ltrLocal = ''[::1]:53'', ltrRemote = ''fd00::2'',
        ltrPort = 5353\<rparr>"
proof -
  have "query_options (Some ''timeout_sec='') = [(''timeout_sec'', [])]" by code_simp
  then have p: "protocol_for (\<lambda>d. 0) False (query_options (Some ''timeout_sec='')) ''udp'' =
      Some (noProtocol\<lparr>Udp := Some \<lparr>udpTimeout = None\<rparr>\<rparr>)"
    by (simp add: protocol_for_def getTimeout_def parseDurationSec_def)
  have e: "plain_end ''::1''" "plain_port ''53''" "plain_end ''fd00::2''" and j: "JoinHostPort ''::1'' ''53'' = ''[::1]:53''"
    by code_simp+
  from tunnel_arg_roundtrip [OF p e, of 5353, unfolded j] show ?thesis .
qed

theorem tunnel_arg_kind_witness:
  "ParseTunnelArg (\<lambda>d. 0) ''tproxy+tcp://1'' True = Inr \<lparr>ltrProtocol = noProtocol\<lparr>TProxyTcp := Some ()\<rparr>,
     ltrLocal = ''127.0.0.1:1'', ltrRemote = ''0.0.0.0'', ltrPort = 0\<rparr> \<and>
   one_kind (noProtocol\<lparr>TProxyTcp := Some ()\<rparr>) \<and> \<not> isReverse (noProtocol\<lparr>TProxyTcp := Some ()\<rparr>)"
proof -
  have s: "ParseTunnelArg (\<lambda>d. 0) ''tproxy+tcp://1'' True = Inr \<lparr>ltrProtocol = noProtocol\<lparr>TProxyTcp := Some ()\<rparr>,
     ltrLocal = ''127.0.0.1:1'', ltrRemote = ''0.0.0.0'', ltrPort = 0\<rparr>"
    by code_simp
  from tunnel_arg_kind [OF s] have "one_kind (noProtocol\<lparr>TProxyTcp := Some ()\<rparr>)"
    by (elim exE conjE) (simp only: LocalToRemote.select_convs)
  with s one_hot(10) show ?thesis by (intro conjI)
qed

subsection \<open>Where the server listens\<close>

text \<open>C30. The listening part of a reverse argument has no effect. Whatever bind address and port it
  names, the token asks the server to listen on the address of the target, and without a target on
  port 0 of 0.0.0.0.\<close>

theorem reverse_listen_part_ignored:
  assumes "protocol_for conv True (query_options q) proto = Some p" "isReverse p"
    and "plain_end lb" "plain_port lp" "plain_end rh"
  shows "\<exists>l4 l2. ParseTunnelArg conv (proto @ ''://'' @ ends_text lb lp rh rp @ query_text q) True = Inr l4 \<and>
    ParseTunnelArg conv (proto @ ''://'' @ end_text lb @ '':'' @ lp @ query_text q) True = Inr l2 \<and>
    snd (bindAddr (claims_of env (ltrProtocol l4) (ltrRemote l4) (ltrPort l4))) = (hostport rh rp, False) \<and>
    snd (bindAddr (claims_of env (ltrProtocol l2) (ltrRemote l2) (ltrPort l2))) = (''0.0.0.0:0'', False)"
proof -
  let ?i = "end_text lb @ '':'' @ lp"
  note ps = plain_port_end [OF assms(4)]
  have a: "list_all (\<lambda>c. code c < 128 \<and> c \<noteq> CHR ''?'') ?i"
    using end_text_ascii [OF assms(3)] end_text_ascii [of lp] ps by simp
  have "rune_strings ?i = singles (end_text lb) @ [CHR '':''] # singles lp @ []"
    by (subst rune_strings_ascii) (use a ps in \<open>auto simp: list_all_iff\<close>)
  then have e: "parse_ends ?i = Some (end_text lb, lp, ''0.0.0.0'', 0)"
    using assms(3,4) by (simp only: parse_ends_def split_info_end split_info_port split_info_colon append_Nil
        split_info.simps(1) list.case)
  have "CHR ''?'' \<notin> set ?i" using a by (auto simp: list_all_iff)
  note l2 = ParseTunnelArg_text [OF assms(1) e this]
  note l4 = ParseTunnelArg_text [OF assms(1) parse_ends_text [OF assms(3-5)]]
  from protocol_for_kind [OF assms(1)] have "ReverseUnix p = None" by (elim conjE)
  then have b: "snd (bindAddr (claims_of env p h n)) = (hostport h n, False)" for h n
    by (simp add: bindAddr_def claims_of_def)
  have "trim_chars ''[]'' ''0.0.0.0'' = ''0.0.0.0''" "hostport ''0.0.0.0'' 0 = ''0.0.0.0:0''" by code_simp+
  then show ?thesis using l2 l4 b trim_end_text [OF assms(5)] by (intro exI conjI) (assumption | simp)+
qed

theorem reverse_listen_part_ignored_witness:
  "\<exists>l4 l2. ParseTunnelArg (\<lambda>d. 0) (''tcp'' @ ''://'' @ ends_text ''0.0.0.0'' ''8080'' ''127.0.0.1'' 80 @ query_text None) True =
      Inr l4 \<and>
    ParseTunnelArg (\<lambda>d. 0) (''tcp'' @ ''://'' @ end_text ''0.0.0.0'' @ '':'' @ ''8080'' @ query_text None) True = Inr l2 \<and>
    snd (bindAddr (claims_of demo_env (ltrProtocol l4) (ltrRemote l4) (ltrPort l4))) = (hostport ''127.0.0.1'' 80, False) \<and>
    snd (bindAddr (claims_of demo_env (ltrProtocol l2) (ltrRemote l2) (ltrPort l2))) = (''0.0.0.0:0'', False)"
proof -
  have p: "protocol_for (\<lambda>d. 0) True (query_options None) ''tcp'' = Some (noProtocol\<lparr>ReverseTcp := Some ()\<rparr>)"
    by (simp add: protocol_for_def)
  have e: "plain_end ''0.0.0.0''" "plain_port ''8080''" "plain_end ''127.0.0.1''" by code_simp+
  show ?thesis by (rule reverse_listen_part_ignored [OF p one_hot(18) e])
qed

end
