(* ===== verification/Http_Proxy.thy ===== *)
theory Http_Proxy
  imports Client_Connect Socks5
begin

text \<open>
  The HTTP CONNECT front ends: \<^verbatim>\<open>authenticateHTTPProxy\<close> and \<^verbatim>\<open>handleHttpProxy\<close> of the client
  (\<^verbatim>\<open>pkg/client/client.go\<close>), and \<^verbatim>\<open>handleHttpProxyHandshake\<close> of the reverse tunnel manager
  (\<^verbatim>\<open>pkg/server/manager.go\<close>).

  Both read the request through a buffer. How many bytes behind the request the buffer holds depends on
  how they arrived, and is an argument: the client drops them, the manager puts them in front of the
  connection.
\<close>

definition authenticateHTTPProxy :: "string \<Rightarrow> Credentials option \<Rightarrow> bool" where
  "authenticateHTTPProxy header credentials =
     (case credentials of
        None \<Rightarrow> True
      | Some cr \<Rightarrow>
          (let h = TrimSpace header in
           if h = [] then False
           else case SplitN2 (CHR '' '') h of
             [scheme, payload] \<Rightarrow>
               if \<not> EqualFold scheme ''Basic'' then False
               else (case DecodeString (TrimSpace payload) of
                       None \<Rightarrow> False
                     | Some p \<Rightarrow>
                         constantTimeEqualBytes p (bytes_of (Username cr @ '':'' @ Password cr)))
           | _ \<Rightarrow> False))"

definition method_not_allowed :: "byte list" where
  "method_not_allowed = bytes_of (''HTTP/1.1 405 Method Not Allowed'' @ crlf @ crlf)"

definition auth_required :: "byte list" where
  "auth_required = bytes_of (''HTTP/1.1 407 Proxy Authentication Required'' @ crlf @
     ''Proxy-Authenticate: Basic realm='' @ [chr 34] @ ''warpstream'' @ [chr 34] @ crlf @ crlf)"

definition established :: "byte list" where
  "established = bytes_of (''HTTP/1.1 200 Connection Established'' @ crlf @ crlf)"

definition proxy_request :: "nat \<Rightarrow> Credentials option \<Rightarrow> conn \<Rightarrow> (go_error + string \<times> port) \<times> conn" where
  "proxy_request buffered credentials c =
     (case ReadRequest (inp c) of
        Inl e \<Rightarrow> (Inl e, c)
      | Inr (r, rest) \<Rightarrow>
          (let c1 = c\<lparr>inp := drop buffered rest\<rparr> in
           if rMethod r \<noteq> ''CONNECT'' then (Inl (Errorf ''method''), snd (Write method_not_allowed c1))
           else if \<not> authenticateHTTPProxy (Get (rHeader r) ''Proxy-Authorization'') credentials
           then (Inl (Errorf ''authentication''), snd (Write auth_required c1))
           else case SplitHostPort (rHost r) of
             Inl e \<Rightarrow> (Inl e, c1)
           | Inr (host, p) \<Rightarrow>
               (case Write established c1 of
                  (Inl e, c2) \<Rightarrow> (Inl e, c2)
                | (Inr u, c2) \<Rightarrow> (Inr (host, of_nat (fst (ParseUint 16 p))), c2))))"

text \<open>What becomes of a local connection: it is closed after an error, or pumped into a tunnel.\<close>

datatype 'g local_conn = ConnClosed go_error conn | ConnPiped conn "'g pump"

definition tunnel_conn ::
  "'g client_env \<Rightarrow> ClientConfig \<Rightarrow> LocalProtocol \<Rightarrow> string \<Rightarrow> port \<Rightarrow> conn \<Rightarrow> 'g local_conn" where
  "tunnel_conn env cfg p host prt c =
     (case connectToTransport env cfg p host prt of
        Inl e \<Rightarrow> ConnClosed e c
      | Inr (ts, r) \<Rightarrow> ConnPiped c (startPipe cfg ts))"

definition tcpProto :: LocalProtocol where
  "tcpProto = noProtocol\<lparr>Tcp := Some \<lparr>tcpProxyProtocol = False\<rparr>\<rparr>"

definition handleHttpProxy ::
  "'g client_env \<Rightarrow> ClientConfig \<Rightarrow> LocalToRemote \<Rightarrow> nat \<Rightarrow> conn \<Rightarrow> 'g local_conn" where
  "handleHttpProxy env cfg ltr buffered c =
     (case proxy_request buffered
             (case HttpProxy (ltrProtocol ltr) of None \<Rightarrow> None | Some h \<Rightarrow> httpCredentials h) c of
        (Inl e, c1) \<Rightarrow> ConnClosed e c1
      | (Inr (host, prt), c1) \<Rightarrow> tunnel_conn env cfg tcpProto host prt c1)"

definition handleHttpProxyHandshake :: "conn \<Rightarrow> (go_error + string \<times> port) \<times> conn" where
  "handleHttpProxyHandshake c =
     (case ReadRequest (inp c) of
        Inl e \<Rightarrow> (Inl (Errorf ''failed to read HTTP proxy request''), c)
      | Inr (r, rest) \<Rightarrow>
          (let c1 = c\<lparr>inp := rest\<rparr> in
           if rMethod r \<noteq> ''CONNECT''
           then (Inl (Errorf ''unsupported HTTP proxy method''), snd (Write method_not_allowed c1))
           else case ParseUint 16 (if PortOf (rURL r) = [] then ''80'' else PortOf (rURL r)) of
             (n, Some e) \<Rightarrow> (Inl (Errorf ''invalid port in CONNECT request''), c1)
           | (n, None) \<Rightarrow>
               (case Write established c1 of
                  (Inl e, c2) \<Rightarrow> (Inl e, c2)
                | (Inr u, c2) \<Rightarrow> (Inr (Hostname (rURL r), of_nat n), c2))))"

subsection \<open>Authentication\<close>

text \<open>The credentials a header presents in the Basic scheme.\<close>

definition basic_credentials :: "string \<Rightarrow> byte list option" where
  "basic_credentials header =
     (case SplitN2 (CHR '' '') (TrimSpace header) of
        [scheme, payload] \<Rightarrow> if EqualFold scheme ''Basic'' then DecodeString (TrimSpace payload) else None
      | _ \<Rightarrow> None)"

lemma trim_left_length: "length (trim_left ps s) \<le> length s"
proof (induction ps s rule: trim_left.induct)
  case (1 ps s)
  show ?case
  proof (cases "drop_first ps s")
    case (Some s')
    then show ?thesis using 1 [OF Some] drop_first_shorter [OF Some] by (simp add: trim_left.simps [of ps s])
  qed (simp add: trim_left.simps [of ps s])
qed

lemma TrimSpace_length: "length (TrimSpace s) \<le> length s"
  unfolding TrimSpace_def
  using trim_left_length [of "map rev spaces" "rev (trim_left spaces s)"] trim_left_length [of spaces s] by simp

lemma SplitN2_length: "SplitN2 sep s = [a, b] \<Longrightarrow> length b \<le> length s"
proof -
  assume "SplitN2 sep s = [a, b]"
  then obtain c where "dropWhile (\<lambda>c. c \<noteq> sep) s = c # b"
    by (auto simp: SplitN2_def split: list.splits)
  then show ?thesis using length_dropWhile_le [of "\<lambda>c. c \<noteq> sep" s] by simp
qed

lemma b64_groups_length: "b64_groups s = Some bs \<Longrightarrow> length bs \<le> length s"
proof (induction s arbitrary: bs rule: b64_groups.induct)
  case (2 c1 c2 c3 c4 cs)
  then show ?case by (fastforce split: if_splits option.splits)
qed simp_all

lemma DecodeString_length: "DecodeString s = Some bs \<Longrightarrow> length bs \<le> length s"
  unfolding DecodeString_def using b64_groups_length le_trans length_filter_le by blast

lemma basic_credentials_length:
  assumes "basic_credentials h = Some p"
  shows "length p \<le> length h"
proof -
  obtain a b where s: "SplitN2 (CHR '' '') (TrimSpace h) = [a, b]" and d: "DecodeString (TrimSpace b) = Some p"
    using assms by (auto simp: basic_credentials_def split: list.splits if_splits)
  have "length p \<le> length (TrimSpace b)" by (rule DecodeString_length [OF d])
  also have "\<dots> \<le> length b" by (rule TrimSpace_length)
  also have "\<dots> \<le> length (TrimSpace h)" by (rule SplitN2_length [OF s])
  also have "\<dots> \<le> length h" by (rule TrimSpace_length)
  finally show ?thesis .
qed

lemma authenticate_iff:
  assumes "length h < 2 ^ 32" "length (Username cr) + length (Password cr) + 1 < 2 ^ 32"
  shows "authenticateHTTPProxy h (Some cr) \<longleftrightarrow>
    basic_credentials h = Some (bytes_of (Username cr @ '':'' @ Password cr))"
proof -
  have "authenticateHTTPProxy h (Some cr) \<longleftrightarrow>
      (\<exists>p. basic_credentials h = Some p \<and> constantTimeEqualBytes p (bytes_of (Username cr @ '':'' @ Password cr)))"
    by (auto simp: authenticateHTTPProxy_def basic_credentials_def Let_def SplitN2_def split: list.splits option.splits)
  moreover have "constantTimeEqualBytes p (bytes_of (Username cr @ '':'' @ Password cr)) \<longleftrightarrow>
      p = bytes_of (Username cr @ '':'' @ Password cr)" if "basic_credentials h = Some p" for p
    using basic_credentials_length [OF that] assms by (intro constantTimeEqualBytes_iff) (simp_all add: bytes_of_def)
  ultimately show ?thesis by auto
qed

text \<open>What a client of the proxy sends is accepted.\<close>

lemma basic_credentials_encode:
  assumes "bs \<noteq> []"
  shows "basic_credentials (''Basic '' @ EncodeToString bs) = Some bs"
proof -
  let ?e = "EncodeToString bs"
  have ne: "?e \<noteq> []" using assms by (simp add: EncodeToString_eq_Nil)
  note g = EncodeToString_plain [of _ bs]
  have "TrimSpace (''Basic '' @ ?e) = ''Basic '' @ ?e"
    by (rule TrimSpace_id) (use ne g [OF last_in_set [OF ne]] in simp)
  moreover have "TrimSpace ?e = ?e"
    by (rule TrimSpace_id) (use g [OF last_in_set [OF ne]] g [OF hd_in_set [OF ne]] in simp)
  moreover have "SplitN2 (CHR '' '') (''Basic'' @ CHR '' '' # ?e) = [''Basic'', ?e]" by (rule SplitN2_sep) simp
  moreover have "EqualFold ''Basic'' ''Basic''" by (rule EqualFold_refl) auto
  ultimately show ?thesis by (simp add: basic_credentials_def DecodeString_EncodeToString)
qed


definition proxy_demo :: conn where
  "proxy_demo = \<lparr>inp = bytes_of (''CONNECT h:1 HTTP/1.1'' @ crlf @ ''Proxy-Authorization: Basic dTpw'' @ crlf @ crlf) @ [7, 8],
     rend = EOF, out = fresh_sink\<rparr>"

definition proxy_demo_request :: request where
  "proxy_demo_request = \<lparr>rMethod = ''CONNECT'', rURL = (path_url [])\<lparr>Host := ''h:1''\<rparr>, rVersion = (1, 1),
     rHeader = [(''Proxy-Authorization'', [''Basic dTpw''])], rHost = ''h:1''\<rparr>"

lemma proxy_demo_read: "ReadRequest (inp proxy_demo) = Inr (proxy_demo_request, [7, 8])"
  by code_simp

lemma proxy_demo_facts:
  "Get (rHeader proxy_demo_request) ''Proxy-Authorization'' = ''Basic dTpw''"
  "basic_credentials ''Basic dTpw'' = Some (bytes_of (''u'' @ '':'' @ ''p''))"
  "rMethod proxy_demo_request = ''CONNECT''" "SplitHostPort (rHost proxy_demo_request) = Inr (''h'', ''1'')"
proof -
  have "EncodeToString (bytes_of (''u'' @ '':'' @ ''p'')) = ''dTpw''" by code_simp
  then show "basic_credentials ''Basic dTpw'' = Some (bytes_of (''u'' @ '':'' @ ''p''))"
    using basic_credentials_encode [of "bytes_of (''u'' @ '':'' @ ''p'')"] by (simp add: bytes_of_def)
qed (code_simp+)


end
