(* ===== verification/Traces.thy ===== *)
theory Traces
  imports Prelude
begin

text \<open>
  Runs of labelled step relations, and refinement between them: the interface for the components whose
  goroutines are modelled as steps and whose contract is an abstract machine.
\<close>

inductive run :: "('s \<Rightarrow> 'e \<Rightarrow> 's \<Rightarrow> bool) \<Rightarrow> 's \<Rightarrow> 'e list \<Rightarrow> 's \<Rightarrow> bool" for step where
  run_Nil: "run step s [] s"
| run_snoc: "run step s es t \<Longrightarrow> step t e u \<Longrightarrow> run step s (es @ [e]) u"

lemma run_single: "step s e t \<Longrightarrow> run step s [e] t"
  using run_snoc [OF run_Nil] by force

lemma run_trans: "run step t es' u \<Longrightarrow> run step s es t \<Longrightarrow> run step s (es @ es') u"
  by (induction rule: run.induct) (auto intro: run.intros simp flip: append_assoc)

lemma run_Cons: "step s e t \<Longrightarrow> run step t es u \<Longrightarrow> run step s (e # es) u"
  using run_trans [of step t es u s "[e]"] run_single [of step s e t] by simp

text \<open>An invariant of a step relation.\<close>

locale invariant =
  fixes step :: "'s \<Rightarrow> 'e \<Rightarrow> 's \<Rightarrow> bool" and inv :: "'s \<Rightarrow> bool"
  assumes inv_step: "inv s \<Longrightarrow> step s e t \<Longrightarrow> inv t"
begin

lemma inv_run: "run step s es t \<Longrightarrow> inv s \<Longrightarrow> inv t"
  by (induction rule: run.induct) (auto intro: inv_step)

end

text \<open>A concrete relation that implements an abstract one, event by event, in the states of an invariant.\<close>

locale refinement = invariant step inv
  for step :: "'s \<Rightarrow> 'e \<Rightarrow> 's \<Rightarrow> bool" and inv :: "'s \<Rightarrow> bool" +
  fixes astep :: "'a \<Rightarrow> 'e \<Rightarrow> 'a \<Rightarrow> bool" and abs :: "'s \<Rightarrow> 'a"
  assumes simulates: "inv s \<Longrightarrow> step s e t \<Longrightarrow> astep (abs s) e (abs t)"
begin

lemma run_refines: "run step s es t \<Longrightarrow> inv s \<Longrightarrow> run astep (abs s) es (abs t)"
proof (induction rule: run.induct)
  case (run_snoc s es t e u)
  then have "inv t" using inv_run by blast
  with run_snoc show ?case by (meson run.run_snoc simulates)
qed (rule run.run_Nil)

end

end
