(* ===== verification/Reverse_Udp.thy ===== *)
theory Reverse_Udp
  imports Traces Protocol
begin

text \<open>
  Reverse UDP listeners, \<^verbatim>\<open>pkg/server/reverse_udp.go\<close>: one session per peer, each a connection with a
  buffer of 128 datagrams that a handler of the reverse tunnel manager reads.

  The listener goroutine finds or creates the session of a peer under the lock of the table, and
  pushes the datagram after releasing it; a session is closed under its own lock, and leaves the table
  in a later step, by the key of its peer. The steps below are these critical sections. The abstract
  machine has one mailbox per peer and no sessions.
\<close>

subsection \<open>Sessions\<close>

record udpSessionConn =
  peer :: string
  ch :: "byte list list"
  sessClosed :: bool

definition newUdpSessionConn :: "string \<Rightarrow> udpSessionConn" where
  "newUdpSessionConn p = \<lparr>peer = p, ch = [], sessClosed = False\<rparr>"

definition push :: "byte list \<Rightarrow> udpSessionConn \<Rightarrow> udpSessionConn" where
  "push d u = (if sessClosed u then u else if length (ch u) < 128 then u\<lparr>ch := ch u @ [d]\<rparr> else u)"

text \<open>A read into a buffer of \<open>n\<close> bytes; \<open>None\<close> while it blocks, end of file on a closed and drained
  channel.\<close>

definition sessRead :: "nat \<Rightarrow> udpSessionConn \<Rightarrow> ((go_error + byte list) \<times> udpSessionConn) option" where
  "sessRead n u =
     (case ch u of
        d # ds \<Rightarrow> Some (Inr (take n d), u\<lparr>ch := ds\<rparr>)
      | [] \<Rightarrow> if sessClosed u then Some (Inl EOF, u) else None)"

text \<open>\<^verbatim>\<open>Close\<close> up to the call of \<open>onClose\<close>; the flag says whether it is called.\<close>

definition sessClose :: "udpSessionConn \<Rightarrow> bool \<times> udpSessionConn" where
  "sessClose u = (if sessClosed u then (False, u) else (True, u\<lparr>sessClosed := True\<rparr>))"

definition sessionTimeout :: "LocalProtocol \<Rightarrow> time_duration" where
  "sessionTimeout p =
     (case ReverseUdp p of
        Some u \<Rightarrow>
          (case udpTimeout u of
             Some d \<Rightarrow> if Secs d > 0 then Secs d * Second else 30 * Second
           | None \<Rightarrow> 30 * Second)
      | None \<Rightarrow> 30 * Second)"

subsection \<open>The listener\<close>

text \<open>\<open>holding\<close> is the session and the datagram between the two critical sections of the loop,
  \<open>leaving\<close> the closed sessions whose \<open>onClose\<close> has not run yet, \<open>handlers\<close> the sessions for which
  \<^verbatim>\<open>handleIncoming\<close> was started.\<close>

record udp_listener =
  sess :: "nat \<Rightarrow> udpSessionConn"
  nextSess :: nat
  sessions :: "(string \<times> nat) list"
  holding :: "(nat \<times> string \<times> byte list) option"
  leaving :: "nat list"
  handlers :: "nat list"
  stopped :: bool

definition upd_sess :: "nat \<Rightarrow> udpSessionConn \<Rightarrow> udp_listener \<Rightarrow> udp_listener" where
  "upd_sess i u s = s\<lparr>sess := (sess s)(i := u)\<rparr>"

definition find_session :: "string \<Rightarrow> byte list \<Rightarrow> udp_listener \<Rightarrow> udp_listener" where
  "find_session k d s = s\<lparr>holding := map_option (\<lambda>i. (i, k, d)) (map_of (sessions s) k)\<rparr>"

definition open_session :: "string \<Rightarrow> byte list \<Rightarrow> udp_listener \<Rightarrow> udp_listener" where
  "open_session k d s =
     (let i = nextSess s in
      s\<lparr>sess := (sess s)(i := newUdpSessionConn k), nextSess := i + 1, sessions := (k, i) # sessions s,
        handlers := i # handlers s, holding := Some (i, k, d)\<rparr>)"

definition push_held :: "nat \<Rightarrow> byte list \<Rightarrow> udp_listener \<Rightarrow> udp_listener" where
  "push_held i d s = (upd_sess i (push d (sess s i)) s)\<lparr>holding := None\<rparr>"

definition close_session :: "nat \<Rightarrow> udp_listener \<Rightarrow> udp_listener" where
  "close_session i s = (upd_sess i (snd (sessClose (sess s i))) s)\<lparr>leaving := i # leaving s\<rparr>"

definition on_close :: "nat \<Rightarrow> udp_listener \<Rightarrow> udp_listener" where
  "on_close i s = s\<lparr>sessions := filter (\<lambda>(k, j). k \<noteq> peer (sess s i)) (sessions s), leaving := remove1 i (leaving s)\<rparr>"

definition runUdpListener :: udp_listener where
  "runUdpListener = \<lparr>sess = \<lambda>i. newUdpSessionConn [], nextSess = 0, sessions = [], holding = None, leaving = [],
     handlers = [], stopped = False\<rparr>"

datatype udp_event =
    Opened string
  | Found string
  | Took string "byte list"
  | Dropped string "byte list"
  | Received string "byte list"
  | Drained string "byte list"
  | Shut string
  | Gone string
  | Stopped

inductive udp_step :: "udp_listener \<Rightarrow> udp_event \<Rightarrow> udp_listener \<Rightarrow> bool" where
  step_find: "\<not> stopped s \<Longrightarrow> holding s = None \<Longrightarrow> map_of (sessions s) k \<noteq> None \<Longrightarrow> udp_step s (Found k) (find_session k d s)"
| step_open: "\<not> stopped s \<Longrightarrow> holding s = None \<Longrightarrow> map_of (sessions s) k = None \<Longrightarrow> udp_step s (Opened k) (open_session k d s)"
| step_push: "holding s = Some (i, k, d) \<Longrightarrow> sessClosed (sess s i) = False \<Longrightarrow> length (ch (sess s i)) < 128 \<Longrightarrow>
    udp_step s (Took k d) (push_held i d s)"
| step_drop: "holding s = Some (i, k, d) \<Longrightarrow> sessClosed (sess s i) \<or> length (ch (sess s i)) \<ge> 128 \<Longrightarrow>
    udp_step s (Dropped k d) (push_held i d s)"
| step_read: "i \<in> set (handlers s) \<Longrightarrow> sessRead n (sess s i) = Some (Inr b, u) \<Longrightarrow> ch (sess s i) = d # ds \<Longrightarrow>
    udp_step s ((if sessClosed (sess s i) then Drained else Received) (peer (sess s i)) d) (upd_sess i u s)"
| step_close: "i \<in> set (handlers s) \<Longrightarrow> fst (sessClose (sess s i)) \<Longrightarrow>
    udp_step s (Shut (peer (sess s i))) (close_session i s)"
| step_gone: "i \<in> set (leaving s) \<Longrightarrow> udp_step s (Gone (peer (sess s i))) (on_close i s)"
| step_stop: "\<not> stopped s \<Longrightarrow> holding s = None \<Longrightarrow> udp_step s Stopped (s\<lparr>stopped := True\<rparr>)"

inductive_cases udp_stepE: "udp_step s e t"

subsection \<open>Mailboxes\<close>

datatype mailbox = NoBox | OpenBox "byte list list" | ClosingBox

inductive mail_step :: "(string \<Rightarrow> mailbox) \<Rightarrow> udp_event \<Rightarrow> (string \<Rightarrow> mailbox) \<Rightarrow> bool" where
  mail_open: "m k = NoBox \<Longrightarrow> mail_step m (Opened k) (m(k := OpenBox []))"
| mail_found: "m k \<noteq> NoBox \<Longrightarrow> mail_step m (Found k) m"
| mail_took: "m k = OpenBox q \<Longrightarrow> length q < 128 \<Longrightarrow> mail_step m (Took k d) (m(k := OpenBox (q @ [d])))"
| mail_dropped: "\<nexists>q. m k = OpenBox q \<and> length q < 128 \<Longrightarrow> mail_step m (Dropped k d) m"
| mail_received: "m k = OpenBox (d # q) \<Longrightarrow> mail_step m (Received k d) (m(k := OpenBox q))"
| mail_drained: "mail_step m (Drained k d) m"
| mail_shut: "m k = OpenBox q \<Longrightarrow> mail_step m (Shut k) (m(k := ClosingBox))"
| mail_gone: "m k = ClosingBox \<Longrightarrow> mail_step m (Gone k) (m(k := NoBox))"
| mail_stopped: "mail_step m Stopped m"

definition mailboxes :: "udp_listener \<Rightarrow> string \<Rightarrow> mailbox" where
  "mailboxes s k =
     (case map_of (sessions s) k of
        None \<Rightarrow> NoBox
      | Some i \<Rightarrow> if sessClosed (sess s i) then ClosingBox else OpenBox (ch (sess s i)))"

subsection \<open>The invariant\<close>

text \<open>A session that is open, or closed and still to be removed, is the one the table has for its peer; the
  session in the hands of the listener belongs to the peer of the datagram, and nobody else has taken
  its place.\<close>

definition udp_inv :: "udp_listener \<Rightarrow> bool" where
  "udp_inv s \<longleftrightarrow>
     (\<forall>k i. map_of (sessions s) k = Some i \<longrightarrow> i < nextSess s \<and> peer (sess s i) = k) \<and>
     (\<forall>i < nextSess s. \<not> sessClosed (sess s i) \<or> i \<in> set (leaving s) \<longrightarrow> map_of (sessions s) (peer (sess s i)) = Some i) \<and>
     (\<forall>i \<in> set (leaving s). i < nextSess s \<and> sessClosed (sess s i)) \<and> distinct (leaving s) \<and>
     (\<forall>i \<in> set (handlers s). i < nextSess s) \<and>
     (\<forall>i k d. holding s = Some (i, k, d) \<longrightarrow>
        i < nextSess s \<and> peer (sess s i) = k \<and> map_of (sessions s) k \<in> {Some i, None}) \<and>
     (\<forall>i. length (ch (sess s i)) \<le> 128)"

lemma udp_invD:
  assumes "udp_inv s"
  shows "map_of (sessions s) k = Some i \<Longrightarrow> i < nextSess s"
    "map_of (sessions s) k = Some i \<Longrightarrow> peer (sess s i) = k"
    "i < nextSess s \<Longrightarrow> \<not> sessClosed (sess s i) \<Longrightarrow> map_of (sessions s) (peer (sess s i)) = Some i"
    "i \<in> set (leaving s) \<Longrightarrow> map_of (sessions s) (peer (sess s i)) = Some i"
    "i \<in> set (leaving s) \<Longrightarrow> i < nextSess s" "i \<in> set (leaving s) \<Longrightarrow> sessClosed (sess s i)"
    "distinct (leaving s)" "i \<in> set (handlers s) \<Longrightarrow> i < nextSess s"
    "holding s = Some (i, k, d) \<Longrightarrow> i < nextSess s" "holding s = Some (i, k, d) \<Longrightarrow> peer (sess s i) = k"
    "holding s = Some (i, k, d) \<Longrightarrow> map_of (sessions s) k = Some i \<or> map_of (sessions s) k = None"
    "length (ch (sess s i)) \<le> 128"
  using assms unfolding udp_inv_def by auto

lemma udp_inv_start: "udp_inv runUdpListener"
  by (simp add: udp_inv_def runUdpListener_def newUdpSessionConn_def)

text \<open>Changing the data or the buffer of one session.\<close>

lemma udp_inv_upd:
  assumes "udp_inv s" "peer u = peer (sess s i)" "sessClosed u = sessClosed (sess s i)" "length (ch u) \<le> 128"
  shows "udp_inv (upd_sess i u s)"
  using assms unfolding udp_inv_def upd_sess_def by auto

lemma map_of_filter_key: "map_of (filter (\<lambda>(k, j). k \<noteq> k0) xs) k = (if k = k0 then None else map_of xs k)"
  by (induction xs) auto

lemma udp_invI:
  assumes "\<And>k i. map_of (sessions s) k = Some i \<Longrightarrow> i < nextSess s \<and> peer (sess s i) = k"
    and "\<And>i. i < nextSess s \<Longrightarrow> \<not> sessClosed (sess s i) \<or> i \<in> set (leaving s) \<Longrightarrow>
      map_of (sessions s) (peer (sess s i)) = Some i"
    and "\<And>i. i \<in> set (leaving s) \<Longrightarrow> i < nextSess s \<and> sessClosed (sess s i)" "distinct (leaving s)"
    and "\<And>i. i \<in> set (handlers s) \<Longrightarrow> i < nextSess s"
    and "\<And>i k d. holding s = Some (i, k, d) \<Longrightarrow>
      i < nextSess s \<and> peer (sess s i) = k \<and> map_of (sessions s) k \<in> {Some i, None}"
    and "\<And>i. length (ch (sess s i)) \<le> 128"
  shows "udp_inv s"
  using assms unfolding udp_inv_def by blast

lemma open_session_sel:
  "sess (open_session k d s) = (sess s)(nextSess s := newUdpSessionConn k)"
  "nextSess (open_session k d s) = Suc (nextSess s)" "sessions (open_session k d s) = (k, nextSess s) # sessions s"
  "handlers (open_session k d s) = nextSess s # handlers s" "leaving (open_session k d s) = leaving s"
  "holding (open_session k d s) = Some (nextSess s, k, d)"
  by (simp_all add: open_session_def Let_def)

lemma udp_inv_open:
  assumes inv: "udp_inv s" and "map_of (sessions s) k = None"
  shows "udp_inv (open_session k d s)"
proof (rule udp_invI)
  show "i < nextSess (open_session k d s) \<and> peer (sess (open_session k d s) i) = k'"
    if "map_of (sessions (open_session k d s)) k' = Some i" for k' i
    using that udp_invD(1,2) [OF inv, of k' i] by (auto simp: open_session_sel newUdpSessionConn_def split: if_splits)
  show "map_of (sessions (open_session k d s)) (peer (sess (open_session k d s) i)) = Some i"
    if "i < nextSess (open_session k d s)"
      "\<not> sessClosed (sess (open_session k d s) i) \<or> i \<in> set (leaving (open_session k d s))" for i
  proof (cases "i = nextSess s")
    case False
    with that have "map_of (sessions s) (peer (sess s i)) = Some i"
      using udp_invD(3,4) [OF inv, of i] by (auto simp: open_session_sel)
    moreover from this have "peer (sess s i) \<noteq> k" using assms(2) by auto
    ultimately show ?thesis using False by (simp add: open_session_sel)
  qed (simp add: open_session_sel newUdpSessionConn_def)
  show "i < nextSess (open_session k d s) \<and> sessClosed (sess (open_session k d s) i)"
    if "i \<in> set (leaving (open_session k d s))" for i
    using that udp_invD(5,6) [OF inv, of i] by (auto simp: open_session_sel)
  show "i < nextSess (open_session k d s)" if "i \<in> set (handlers (open_session k d s))" for i
    using that udp_invD(8) [OF inv, of i] by (auto simp: open_session_sel)
  show "length (ch (sess (open_session k d s) i)) \<le> 128" for i
    using udp_invD(12) [OF inv] by (simp add: open_session_sel newUdpSessionConn_def)
qed (use udp_invD(7) [OF inv] in \<open>auto simp: open_session_sel newUdpSessionConn_def\<close>)

lemma on_close_sel:
  "sess (on_close i s) = sess s" "nextSess (on_close i s) = nextSess s" "handlers (on_close i s) = handlers s"
  "holding (on_close i s) = holding s" "leaving (on_close i s) = remove1 i (leaving s)"
  "map_of (sessions (on_close i s)) k = (if k = peer (sess s i) then None else map_of (sessions s) k)"
  by (simp_all add: on_close_def map_of_filter_key)

lemma udp_inv_gone:
  assumes inv: "udp_inv s" and i: "i \<in> set (leaving s)"
  shows "udp_inv (on_close i s)"
proof (rule udp_invI, unfold on_close_sel)
  show "j < nextSess s \<and> peer (sess s j) = k"
    if "(if k = peer (sess s i) then None else map_of (sessions s) k) = Some j" for k j
    using that udp_invD(1,2) [OF inv, of k j] by (auto split: if_splits)
  show "(if peer (sess s j) = peer (sess s i) then None else map_of (sessions s) (peer (sess s j))) = Some j"
    if "j < nextSess s" "\<not> sessClosed (sess s j) \<or> j \<in> set (remove1 i (leaving s))" for j
  proof -
    have m: "map_of (sessions s) (peer (sess s j)) = Some j"
      using that udp_invD(3,4) [OF inv, of j] set_remove1_subset [of i "leaving s"] by blast
    have "j \<noteq> i" using that udp_invD(6) [OF inv i] udp_invD(7) [OF inv] by auto
    with m udp_invD(4) [OF inv i] have "peer (sess s j) \<noteq> peer (sess s i)" by auto
    with m show ?thesis by simp
  qed
  show "j < nextSess s \<and> sessClosed (sess s j)" if "j \<in> set (remove1 i (leaving s))" for j
    using that udp_invD(5,6) [OF inv, of j] set_remove1_subset [of i "leaving s"] by blast
  show "distinct (remove1 i (leaving s))" using udp_invD(7) [OF inv] by simp
  show "j < nextSess s" if "j \<in> set (handlers s)" for j using that udp_invD(8) [OF inv] by blast
  show "j < nextSess s \<and> peer (sess s j) = k \<and> (if k = peer (sess s i) then None else map_of (sessions s) k) \<in> {Some j, None}"
    if "holding s = Some (j, k, d)" for j k d
    using that udp_invD(9-11) [OF inv, of j k d] by auto
  show "length (ch (sess s j)) \<le> 128" for j by (rule udp_invD(12) [OF inv])
qed

lemma close_session_sel:
  "peer (sess (close_session i s) j) = peer (sess s j)" "ch (sess (close_session i s) j) = ch (sess s j)"
  "sessClosed (sess (close_session i s) j) = (j = i \<or> sessClosed (sess s j))"
  "nextSess (close_session i s) = nextSess s" "handlers (close_session i s) = handlers s"
  "holding (close_session i s) = holding s" "leaving (close_session i s) = i # leaving s"
  "sessions (close_session i s) = sessions s"
  by (simp_all add: close_session_def upd_sess_def sessClose_def)

lemma udp_inv_close:
  assumes inv: "udp_inv s" and i: "i < nextSess s" "\<not> sessClosed (sess s i)"
  shows "udp_inv (close_session i s)"
proof (rule udp_invI, unfold close_session_sel)
  show "map_of (sessions s) (peer (sess s j)) = Some j"
    if "j < nextSess s" "\<not> (j = i \<or> sessClosed (sess s j)) \<or> j \<in> set (i # leaving s)" for j
  proof (cases "j = i")
    case True
    then show ?thesis using udp_invD(3) [OF inv i] by simp
  next
    case False
    then have "\<not> sessClosed (sess s j) \<or> j \<in> set (leaving s)" using that by auto
    then show ?thesis using that(1) udp_invD(3,4) [OF inv, of j] by blast
  qed
  show "j < nextSess s \<and> (j = i \<or> sessClosed (sess s j))" if "j \<in> set (i # leaving s)" for j
    using that i udp_invD(5,6) [OF inv, of j] by auto
  show "distinct (i # leaving s)" using udp_invD(6,7) [OF inv] i by auto
  show "j < nextSess s \<and> peer (sess s j) = k" if "map_of (sessions s) k = Some j" for k j
    using that udp_invD(1,2) [OF inv] by blast
  show "j < nextSess s" if "j \<in> set (handlers s)" for j using that udp_invD(8) [OF inv] by blast
  show "j < nextSess s \<and> peer (sess s j) = k \<and> map_of (sessions s) k \<in> {Some j, None}"
    if "holding s = Some (j, k, d)" for j k d
    using that udp_invD(9-11) [OF inv, of j k d] by auto
  show "length (ch (sess s j)) \<le> 128" for j by (rule udp_invD(12) [OF inv])
qed

lemma udp_inv_push: "udp_inv s \<Longrightarrow> udp_inv (push_held i d s)"
proof -
  assume inv: "udp_inv s"
  have "udp_inv (upd_sess i (push d (sess s i)) s)"
    by (rule udp_inv_upd [OF inv]) (use udp_invD(12) [OF inv, of i] in \<open>auto simp: push_def\<close>)
  then show ?thesis unfolding udp_inv_def push_held_def by simp
qed

lemma udp_inv_find:
  assumes inv: "udp_inv s"
  shows "udp_inv (find_session k d s)"
proof -
  have "i < nextSess s \<and> peer (sess s i) = k \<and> map_of (sessions s) k \<in> {Some i, None}"
    if "map_of (sessions s) k = Some i" for i
    using that udp_invD(1,2) [OF inv] by blast
  then show ?thesis using inv unfolding udp_inv_def find_session_def by auto
qed

lemma udp_inv_step: "udp_inv s \<Longrightarrow> udp_step s e t \<Longrightarrow> udp_inv t"
proof (rotate_tac, induction rule: udp_step.induct)
  case (step_read i s n b u d ds)
  have "peer u = peer (sess s i)" "sessClosed u = sessClosed (sess s i)" "length (ch u) \<le> 128"
    using step_read(2,3) udp_invD(12) [OF step_read(4), of i] by (auto simp: sessRead_def)
  then show ?case by (rule udp_inv_upd [OF step_read(4)])
next
  case (step_close i s)
  then show ?case using udp_invD(8) [of s i] by (intro udp_inv_close) (auto simp: sessClose_def split: if_splits)
next
  case (step_stop s)
  then show ?case by (simp add: udp_inv_def)
qed (auto intro: udp_inv_find udp_inv_open udp_inv_push udp_inv_gone)
subsection \<open>Refinement\<close>

lemma mailboxes_in:
  "map_of (sessions s) k = Some i \<Longrightarrow>
   mailboxes s k = (if sessClosed (sess s i) then ClosingBox else OpenBox (ch (sess s i)))"
  by (simp add: mailboxes_def)

text \<open>A change of one session is a change of at most the mailbox of its peer.\<close>

lemma mailboxes_upd:
  assumes "udp_inv s" "peer u = peer (sess s i)" "map_of (sessions s) (peer (sess s i)) = Some i"
  shows "mailboxes (upd_sess i u s) =
    (mailboxes s)(peer (sess s i) := (if sessClosed u then ClosingBox else OpenBox (ch u)))"
proof
  fix k
  have "j \<noteq> i" if "map_of (sessions s) k = Some j" "k \<noteq> peer (sess s i)" for j
    using that udp_invD(2) [OF assms(1)] by blast
  then show "mailboxes (upd_sess i u s) k =
      ((mailboxes s)(peer (sess s i) := (if sessClosed u then ClosingBox else OpenBox (ch u)))) k"
    using assms(3) by (auto simp: mailboxes_def upd_sess_def split: option.split)
qed

lemma mailboxes_upd_closed:
  assumes "sessClosed (sess s i)" "sessClosed u"
  shows "mailboxes (upd_sess i u s) = mailboxes s"
  using assms by (auto simp: mailboxes_def upd_sess_def fun_eq_iff split: option.split)

lemma mailboxes_frame:
  "sess t = sess s \<Longrightarrow> sessions t = sessions s \<Longrightarrow> mailboxes t = mailboxes s"
  by (rule ext) (simp add: mailboxes_def split: option.split)

lemma push_held_mailboxes: "mailboxes (push_held i d s) = mailboxes (upd_sess i (push d (sess s i)) s)"
  by (rule mailboxes_frame) (simp_all add: push_held_def)

lemma udp_simulates:
  assumes "udp_step s e t" "udp_inv s"
  shows "mail_step (mailboxes s) e (mailboxes t)"
  using assms
proof (induction rule: udp_step.induct)
  case (step_find s k d)
  have "mailboxes (find_session k d s) = mailboxes s" by (rule mailboxes_frame) (simp_all add: find_session_def)
  moreover have "mailboxes s k \<noteq> NoBox" using step_find(3) by (auto simp: mailboxes_def split: if_splits)
  ultimately show ?case using mail_found [of "mailboxes s" k] by simp
next
  case (step_open s k d)
  have "i \<noteq> nextSess s" if "map_of (sessions s) k' = Some i" for k' i using udp_invD(1) [OF step_open(4) that] by simp
  then have "mailboxes (open_session k d s) = (mailboxes s)(k := OpenBox [])"
    by (auto simp: mailboxes_def open_session_sel newUdpSessionConn_def fun_eq_iff split: option.split)
  moreover have "mailboxes s k = NoBox" using step_open(3) by (simp add: mailboxes_def)
  ultimately show ?case using mail_open by metis
next
  case (step_push s i k d)
  note h = udp_invD(9,10) [OF step_push(4,1)]
  have k: "map_of (sessions s) k = Some i" using udp_invD(3) [OF step_push(4) h(1)] step_push(2) h(2) by simp
  have "mailboxes (push_held i d s) = (mailboxes s)(k := OpenBox (ch (sess s i) @ [d]))"
    unfolding push_held_mailboxes using mailboxes_upd [OF step_push(4), of "push d (sess s i)" i] k h(2) step_push(2,3)
    by (simp add: push_def)
  from this [symmetric] show ?case
    by (rule subst) (rule mail_took, use step_push(2,3) in \<open>simp_all add: mailboxes_in [OF k]\<close>)
next
  case (step_drop s i k d)
  have "push d (sess s i) = sess s i" using step_drop(2) by (auto simp: push_def)
  then have "mailboxes (push_held i d s) = mailboxes s"
    unfolding push_held_mailboxes by (intro mailboxes_frame) (simp_all add: upd_sess_def)
  moreover have "\<nexists>q. mailboxes s k = OpenBox q \<and> length q < 128"
    using udp_invD(11) [OF step_drop(3,1)] step_drop(2) by (auto simp: mailboxes_def split: if_splits)
  ultimately show ?case using mail_dropped by simp
next
  case (step_read i s n b u d ds)
  have u: "peer u = peer (sess s i)" "sessClosed u = sessClosed (sess s i)" "ch u = ds"
    using step_read(2,3) by (auto simp: sessRead_def)
  show ?case
  proof (cases "sessClosed (sess s i)")
    case True
    then show ?thesis using mailboxes_upd_closed [of s i u] u mail_drained by simp
  next
    case False
    then have k: "map_of (sessions s) (peer (sess s i)) = Some i"
      using udp_invD(3) [OF step_read(4)] udp_invD(8) [OF step_read(4,1)] by simp
    have "mailboxes (upd_sess i u s) = (mailboxes s)(peer (sess s i) := OpenBox ds)"
      using mailboxes_upd [OF step_read(4) u(1) k] u False by simp
    from this [symmetric] have "mail_step (mailboxes s) (Received (peer (sess s i)) d) (mailboxes (upd_sess i u s))"
      by (rule subst) (rule mail_received, use False step_read(3) in \<open>simp add: mailboxes_in [OF k]\<close>)
    with False show ?thesis by simp
  qed
next
  case (step_close i s)
  have c: "\<not> sessClosed (sess s i)" using step_close(2) by (auto simp: sessClose_def split: if_splits)
  have k: "map_of (sessions s) (peer (sess s i)) = Some i"
    by (rule udp_invD(3) [OF step_close(3) udp_invD(8) [OF step_close(3,1)] c])
  have "mailboxes (close_session i s) = mailboxes (upd_sess i (snd (sessClose (sess s i))) s)"
    by (rule mailboxes_frame) (simp_all add: close_session_def)
  also have "\<dots> = (mailboxes s)(peer (sess s i) := ClosingBox)"
    by (subst mailboxes_upd [OF step_close(3) _ k]) (simp_all add: sessClose_def c)
  finally have m: "mailboxes (close_session i s) = (mailboxes s)(peer (sess s i) := ClosingBox)" .
  from m [symmetric] show ?case
    by (rule subst) (rule mail_shut, use c in \<open>simp add: mailboxes_in [OF k]\<close>)
next
  case (step_gone i s)
  have k: "map_of (sessions s) (peer (sess s i)) = Some i" "sessClosed (sess s i)"
    using udp_invD(4,6) [OF step_gone(2,1)] by blast+
  have "mailboxes (on_close i s) = (mailboxes s)(peer (sess s i) := NoBox)"
    by (auto simp: mailboxes_def on_close_sel fun_eq_iff split: option.split)
  from this [symmetric] show ?case
    by (rule subst) (rule mail_gone, use k(2) in \<open>simp add: mailboxes_in [OF k(1)]\<close>)
next
  case (step_stop s)
  have "mailboxes (s\<lparr>stopped := True\<rparr>) = mailboxes s" by (rule mailboxes_frame) simp_all
  then show ?case using mail_stopped by simp
qed

interpretation ru: refinement udp_step udp_inv mail_step mailboxes
  by unfold_locales (auto intro: udp_inv_step udp_simulates)

text \<open>C11. The reverse UDP listener implements one mailbox per peer. Under every interleaving of arriving
  datagrams, readers, closing sessions and their removal from the table, its events are events of the
  abstract machine: a datagram goes to the mailbox of its own peer, in order, and is dropped only when
  that mailbox is full, closing or gone; removing a session by the key of its peer never removes a
  newer session; and no mailbox holds more than 128 datagrams.\<close>

theorem reverse_udp_refines:
  assumes "run udp_step runUdpListener es t"
  shows "run mail_step (\<lambda>k. NoBox) es (mailboxes t) \<and> (\<nexists>k q. mailboxes t k = OpenBox q \<and> length q > 128)"
proof -
  have "mailboxes runUdpListener = (\<lambda>k. NoBox)" by (simp add: mailboxes_def runUdpListener_def fun_eq_iff)
  moreover have "udp_inv t" by (rule ru.inv_run [OF assms udp_inv_start])
  then have "length (ch (sess t i)) \<le> 128" for i by (rule udp_invD(12))
  then have "\<nexists>k q. mailboxes t k = OpenBox q \<and> length q > 128"
    by (auto simp: mailboxes_def not_less split: option.splits if_splits)
  ultimately show ?thesis using ru.run_refines [OF assms udp_inv_start] by simp
qed

text \<open>A peer sends two datagrams; the handler reads one and closes; the second arrives meanwhile.\<close>

definition udp_demo1 :: udp_listener where "udp_demo1 = open_session ''p'' [1] runUdpListener"
definition udp_demo2 :: udp_listener where "udp_demo2 = push_held 0 [1] udp_demo1"
definition udp_demo3 :: udp_listener where "udp_demo3 = find_session ''p'' [2] udp_demo2"
definition udp_demo4 :: udp_listener where "udp_demo4 = upd_sess 0 (newUdpSessionConn ''p'') udp_demo3"
definition udp_demo5 :: udp_listener where "udp_demo5 = close_session 0 udp_demo4"
definition udp_demo6 :: udp_listener where "udp_demo6 = push_held 0 [2] udp_demo5"

lemmas udp_demo_defs = udp_demo1_def udp_demo2_def udp_demo3_def udp_demo4_def udp_demo5_def udp_demo6_def
  open_session_def push_held_def find_session_def close_session_def upd_sess_def push_def sessRead_def sessClose_def
  newUdpSessionConn_def runUdpListener_def Let_def

lemma udp_demo_run:
  "run udp_step runUdpListener
     [Opened ''p'', Took ''p'' [1], Found ''p'', Received ''p'' [1], Shut ''p'', Dropped ''p'' [2]] udp_demo6"
proof (intro run_Cons)
  show "udp_step runUdpListener (Opened ''p'') udp_demo1"
    unfolding udp_demo1_def by (rule step_open) (simp_all add: udp_demo_defs)
  show "udp_step udp_demo1 (Took ''p'' [1]) udp_demo2"
    unfolding udp_demo2_def by (rule step_push) (simp_all add: udp_demo_defs)
  show "udp_step udp_demo2 (Found ''p'') udp_demo3"
    unfolding udp_demo3_def by (rule step_find) (simp_all add: udp_demo_defs)
  have "udp_step udp_demo3 ((if sessClosed (sess udp_demo3 0) then Drained else Received) (peer (sess udp_demo3 0)) [1])
      udp_demo4"
    unfolding udp_demo4_def by (rule step_read [where n = 1]) (simp_all add: udp_demo_defs)
  then show "udp_step udp_demo3 (Received ''p'' [1]) udp_demo4" by (simp add: udp_demo_defs)
  have "udp_step udp_demo4 (Shut (peer (sess udp_demo4 0))) udp_demo5"
    unfolding udp_demo5_def by (rule step_close) (simp_all add: udp_demo_defs)
  then show "udp_step udp_demo4 (Shut ''p'') udp_demo5" by (simp add: udp_demo_defs)
  show "udp_step udp_demo5 (Dropped ''p'' [2]) udp_demo6"
    unfolding udp_demo6_def by (rule step_drop) (simp_all add: udp_demo_defs)
qed (rule run_Nil)

theorem reverse_udp_refines_witness:
  "run mail_step (\<lambda>k. NoBox)
     [Opened ''p'', Took ''p'' [1], Found ''p'', Received ''p'' [1], Shut ''p'', Dropped ''p'' [2]] (mailboxes udp_demo6) \<and>
   mailboxes udp_demo6 ''p'' = ClosingBox"
  using reverse_udp_refines [OF udp_demo_run] by (simp add: mailboxes_def udp_demo_defs)

end
