(* ===== verification/Udp_Sessions.thy ===== *)
theory Udp_Sessions
  imports Traces Protocol "HOL-Library.Sublist"
begin

text \<open>
  The UDP listeners of the client, \<^verbatim>\<open>runUdpTunnel\<close> and \<^verbatim>\<open>runTProxyUdpTunnel\<close> of
  \<^verbatim>\<open>pkg/client/client.go\<close>: one stream to the server per source address, a timer that reclaims it, and
  a goroutine per stream that sends the answers back. The steps are the critical sections of the main
  loop, the timer callbacks and the readers, between which the others may run. A session and its timer
  have the same number.

  The table of the streams and the table of the timers are keyed by the source address only, and every
  cleanup deletes by that key: the lemmas show what still holds, and what does not.
\<close>

subsection \<open>State\<close>

record udp_client =
  nextTs :: nat
  tsSource :: "nat \<Rightarrow> string"
  tsClosed :: "nat \<Rightarrow> bool"
  tsSent :: "nat \<Rightarrow> byte list list"
  clients :: "string \<rightharpoonup> nat"
  timers :: "string \<rightharpoonup> nat"
  armed :: "nat set"
  firing :: "nat set"
  readers :: "nat set"
  closing :: "nat set"
  writing :: "(nat \<times> string \<times> byte list) option"
  failed :: "(nat \<times> string) option"
  received :: "(string \<times> byte list) list"
  toPeer :: "(string \<times> byte list) list"

definition startUdp :: udp_client where
  "startUdp = \<lparr>nextTs = 0, tsSource = \<lambda>i. [], tsClosed = \<lambda>i. False, tsSent = \<lambda>i. [], clients = Map.empty, timers = Map.empty,
     armed = {}, firing = {}, readers = {}, closing = {}, writing = None, failed = None, received = [], toPeer = []\<rparr>"

definition udpTimeoutOf :: "UdpProtocol option \<Rightarrow> time_duration" where
  "udpTimeoutOf u =
     (case u of
        Some p \<Rightarrow>
          (case udpTimeout p of
             Some d \<Rightarrow> if Secs d > 0 then Secs d * Second else 30 * Second
           | None \<Rightarrow> 30 * Second)
      | None \<Rightarrow> 30 * Second)"

subsection \<open>Operations\<close>

text \<open>Resetting a timer arms it again, whether it was running, stopped or had fired.\<close>

definition reset_timer :: "string \<Rightarrow> udp_client \<Rightarrow> udp_client" where
  "reset_timer k s = (case timers s k of Some t \<Rightarrow> s\<lparr>armed := insert t (armed s)\<rparr> | None \<Rightarrow> s)"

definition known_source :: "string \<Rightarrow> byte list \<Rightarrow> nat \<Rightarrow> udp_client \<Rightarrow> udp_client" where
  "known_source k d i s = (reset_timer k s)\<lparr>writing := Some (i, k, d), received := received s @ [(k, d)]\<rparr>"

definition new_source :: "string \<Rightarrow> byte list \<Rightarrow> udp_client \<Rightarrow> udp_client" where
  "new_source k d s =
     (let i = nextTs s in
      s\<lparr>nextTs := i + 1, tsSource := (tsSource s)(i := k), clients := (clients s)(k \<mapsto> i), timers := (timers s)(k \<mapsto> i),
        armed := insert i (armed s), readers := insert i (readers s), writing := Some (i, k, d),
        received := received s @ [(k, d)]\<rparr>)"

definition refused_source :: "string \<Rightarrow> byte list \<Rightarrow> udp_client \<Rightarrow> udp_client" where
  "refused_source k d s = s\<lparr>received := received s @ [(k, d)]\<rparr>"

definition wrote :: "nat \<Rightarrow> byte list \<Rightarrow> udp_client \<Rightarrow> udp_client" where
  "wrote i d s = s\<lparr>tsSent := (tsSent s)(i := tsSent s i @ [d]), writing := None\<rparr>"

definition write_failed :: "bool \<Rightarrow> nat \<Rightarrow> string \<Rightarrow> udp_client \<Rightarrow> udp_client" where
  "write_failed tproxy i k s = s\<lparr>writing := None, failed := (if tproxy then None else Some (i, k))\<rparr>"

text \<open>The common cleanup by key: the stream leaves the table, its timer is stopped and leaves too.\<close>

definition forget :: "string \<Rightarrow> udp_client \<Rightarrow> udp_client" where
  "forget k s =
     (case timers s k of
        Some t \<Rightarrow> s\<lparr>clients := (clients s)(k := None), armed := armed s - {t}, timers := (timers s)(k := None)\<rparr>
      | None \<Rightarrow> s\<lparr>clients := (clients s)(k := None)\<rparr>)"

definition cleanup :: "nat \<Rightarrow> string \<Rightarrow> udp_client \<Rightarrow> udp_client" where
  "cleanup i k s = (forget k s)\<lparr>failed := None, closing := insert i (closing s)\<rparr>"

definition timer_fires :: "nat \<Rightarrow> udp_client \<Rightarrow> udp_client" where
  "timer_fires t s = s\<lparr>armed := armed s - {t}, firing := insert t (firing s)\<rparr>"

text \<open>The callback of \<^verbatim>\<open>runUdpTunnel\<close> closes its own stream after the lock is released; the one of
  \<^verbatim>\<open>runTProxyUdpTunnel\<close> closes, under the lock, the stream that the table has for the key.\<close>

definition callback :: "bool \<Rightarrow> nat \<Rightarrow> udp_client \<Rightarrow> udp_client" where
  "callback tproxy t s =
     (let k = tsSource s t;
          s' = s\<lparr>clients := (clients s)(k := None), timers := (timers s)(k := None), firing := firing s - {t}\<rparr> in
      if tproxy then
        (case clients s k of Some j \<Rightarrow> s'\<lparr>tsClosed := (tsClosed s)(j := True)\<rparr> | None \<Rightarrow> s')
      else s'\<lparr>closing := insert t (closing s)\<rparr>)"

definition close_stream :: "nat \<Rightarrow> udp_client \<Rightarrow> udp_client" where
  "close_stream i s = s\<lparr>tsClosed := (tsClosed s)(i := True), closing := closing s - {i}\<rparr>"

definition got_message :: "nat \<Rightarrow> bool \<Rightarrow> byte list \<Rightarrow> udp_client \<Rightarrow> udp_client" where
  "got_message i binary p s =
     (let s' = reset_timer (tsSource s i) s in
      if binary then s'\<lparr>toPeer := toPeer s @ [(tsSource s i, p)]\<rparr> else s')"

definition reader_ends :: "nat \<Rightarrow> udp_client \<Rightarrow> udp_client" where
  "reader_ends i s = (forget (tsSource s i) s)\<lparr>closing := insert i (closing s), readers := readers s - {i}\<rparr>"

datatype us_event =
  Datagram string | Wrote nat | WriteFailed nat | CleanedUp nat | TimerFired nat | CallbackRan nat |
  StreamClosed nat | Message nat | ReaderEnded nat

inductive us_step :: "bool \<Rightarrow> udp_client \<Rightarrow> us_event \<Rightarrow> udp_client \<Rightarrow> bool" for tproxy where
  us_known: "writing s = None \<Longrightarrow> failed s = None \<Longrightarrow> clients s k = Some i \<Longrightarrow>
    us_step tproxy s (Datagram k) (known_source k d i s)"
| us_new: "writing s = None \<Longrightarrow> failed s = None \<Longrightarrow> clients s k = None \<Longrightarrow>
    us_step tproxy s (Datagram k) (new_source k d s)"
| us_refused: "writing s = None \<Longrightarrow> failed s = None \<Longrightarrow> clients s k = None \<Longrightarrow>
    us_step tproxy s (Datagram k) (refused_source k d s)"
| us_wrote: "writing s = Some (i, k, d) \<Longrightarrow> \<not> tsClosed s i \<Longrightarrow> us_step tproxy s (Wrote i) (wrote i d s)"
| us_failed: "writing s = Some (i, k, d) \<Longrightarrow> us_step tproxy s (WriteFailed i) (write_failed tproxy i k s)"
| us_cleanup: "failed s = Some (i, k) \<Longrightarrow> us_step tproxy s (CleanedUp i) (cleanup i k s)"
| us_fire: "t \<in> armed s \<Longrightarrow> us_step tproxy s (TimerFired t) (timer_fires t s)"
| us_callback: "t \<in> firing s \<Longrightarrow> us_step tproxy s (CallbackRan t) (callback tproxy t s)"
| us_close: "i \<in> closing s \<Longrightarrow> us_step tproxy s (StreamClosed i) (close_stream i s)"
| us_message: "i \<in> readers s \<Longrightarrow> us_step tproxy s (Message i) (got_message i binary p s)"
| us_reader: "i \<in> readers s \<Longrightarrow> us_step tproxy s (ReaderEnded i) (reader_ends i s)"

text \<open>What the two listeners can do, from the moment they are bound.\<close>

definition runUdpTunnel :: "us_event list \<Rightarrow> udp_client \<Rightarrow> bool" where
  "runUdpTunnel es s \<longleftrightarrow> run (us_step False) startUdp es s"

definition runTProxyUdpTunnel :: "us_event list \<Rightarrow> udp_client \<Rightarrow> bool" where
  "runTProxyUdpTunnel es s \<longleftrightarrow> run (us_step True) startUdp es s"

subsection \<open>What the tables keep\<close>

definition table_inv :: "udp_client \<Rightarrow> bool" where
  "table_inv s \<longleftrightarrow>
     timers s = clients s \<and>
     (\<forall>k i. clients s k = Some i \<longrightarrow> i < nextTs s \<and> tsSource s i = k \<and> \<not> tsClosed s i \<and> i \<notin> closing s) \<and>
     (\<forall>i \<in> closing s. i < nextTs s) \<and> (\<forall>i \<in> readers s. i < nextTs s) \<and> (\<forall>i \<in> firing s. i < nextTs s) \<and>
     (\<forall>i \<in> armed s. i < nextTs s) \<and> (\<forall>i. tsClosed s i \<longrightarrow> i < nextTs s) \<and>
     (\<forall>i k d. writing s = Some (i, k, d) \<longrightarrow> i < nextTs s \<and> tsSource s i = k) \<and>
     (\<forall>i k. failed s = Some (i, k) \<longrightarrow> i < nextTs s \<and> tsSource s i = k)"

lemma table_inv_start: "table_inv startUdp"
  by (simp add: table_inv_def startUdp_def)

lemma table_invD:
  assumes "table_inv s"
  shows "timers s = clients s" "clients s k = Some i \<Longrightarrow> i < nextTs s" "clients s k = Some i \<Longrightarrow> tsSource s i = k"
    "clients s k = Some i \<Longrightarrow> \<not> tsClosed s i" "writing s = Some (i, k, d) \<Longrightarrow> i < nextTs s"
    "writing s = Some (i, k, d) \<Longrightarrow> tsSource s i = k" "failed s = Some (i, k) \<Longrightarrow> i < nextTs s"
    "failed s = Some (i, k) \<Longrightarrow> tsSource s i = k"
  using assms unfolding table_inv_def by auto

lemma table_invD':
  assumes "table_inv s"
  shows "clients s k = Some i \<Longrightarrow> i \<notin> closing s" "i \<in> closing s \<Longrightarrow> i < nextTs s" "i \<in> readers s \<Longrightarrow> i < nextTs s"
    "i \<in> firing s \<Longrightarrow> i < nextTs s" "i \<in> armed s \<Longrightarrow> i < nextTs s" "tsClosed s i \<Longrightarrow> i < nextTs s"
  using assms unfolding table_inv_def by auto

lemma table_invI:
  assumes "timers s = clients s"
    and "\<And>k i. clients s k = Some i \<Longrightarrow> i < nextTs s \<and> tsSource s i = k \<and> \<not> tsClosed s i \<and> i \<notin> closing s"
    and "\<And>i. i \<in> closing s \<or> i \<in> readers s \<or> i \<in> firing s \<or> i \<in> armed s \<or> tsClosed s i \<Longrightarrow> i < nextTs s"
    and "\<And>i k d. writing s = Some (i, k, d) \<Longrightarrow> i < nextTs s \<and> tsSource s i = k"
    and "\<And>i k. failed s = Some (i, k) \<Longrightarrow> i < nextTs s \<and> tsSource s i = k"
  shows "table_inv s"
  using assms unfolding table_inv_def by blast

lemma table_inv_reset: "table_inv s \<Longrightarrow> table_inv (reset_timer k s)"
  unfolding table_inv_def reset_timer_def by (auto split: option.split)

lemma table_inv_forget: "table_inv s \<Longrightarrow> table_inv (forget k s)"
  unfolding table_inv_def forget_def by (auto split: option.split)

lemma forget_sel:
  "table_inv s \<Longrightarrow> clients (forget k s) = (clients s)(k := None)"
  "tsSource (forget k s) = tsSource s" "nextTs (forget k s) = nextTs s" "tsClosed (forget k s) = tsClosed s"
  "closing (forget k s) = closing s" "readers (forget k s) = readers s" "writing (forget k s) = writing s"
  "failed (forget k s) = failed s" "tsSent (forget k s) = tsSent s" "received (forget k s) = received s"
  "firing (forget k s) = firing s"
  by (simp_all add: forget_def split: option.split)

lemma reset_timer_sel:
  "clients (reset_timer k s) = clients s" "timers (reset_timer k s) = timers s"
  "tsSource (reset_timer k s) = tsSource s" "nextTs (reset_timer k s) = nextTs s" "tsClosed (reset_timer k s) = tsClosed s"
  "closing (reset_timer k s) = closing s" "readers (reset_timer k s) = readers s" "writing (reset_timer k s) = writing s"
  "failed (reset_timer k s) = failed s" "tsSent (reset_timer k s) = tsSent s" "received (reset_timer k s) = received s"
  "firing (reset_timer k s) = firing s"
  by (simp_all add: reset_timer_def split: option.split)

text \<open>A stream whose key is free may be set to closing.\<close>

lemma table_inv_closing:
  "table_inv s \<Longrightarrow> i < nextTs s \<Longrightarrow> clients s (tsSource s i) = None \<Longrightarrow> table_inv (s\<lparr>closing := insert i (closing s)\<rparr>)"
  unfolding table_inv_def by auto

lemma table_inv_new:
  assumes inv: "table_inv s" and "failed s = None"
  shows "table_inv (new_source k d s)"
proof (rule table_invI)
  let ?t = "new_source k d s"
  show "timers ?t = clients ?t" using table_invD(1) [OF inv] by (simp add: new_source_def Let_def)
  show "i < nextTs ?t \<and> tsSource ?t i = k' \<and> \<not> tsClosed ?t i \<and> i \<notin> closing ?t" if "clients ?t k' = Some i" for k' i
  proof (cases "k' = k")
    case True
    then have "i = nextTs s" using that by (simp add: new_source_def Let_def)
    then show ?thesis using True table_invD'(2,6) [OF inv, of "nextTs s"] by (auto simp: new_source_def Let_def)
  next
    case False
    then have c: "clients s k' = Some i" using that by (simp add: new_source_def Let_def)
    show ?thesis using table_invD(2-4) [OF inv c] table_invD'(1) [OF inv c] by (simp add: new_source_def Let_def)
  qed
  show "i < nextTs ?t" if "i \<in> closing ?t \<or> i \<in> readers ?t \<or> i \<in> firing ?t \<or> i \<in> armed ?t \<or> tsClosed ?t i" for i
    using that table_invD'(2-6) [OF inv, of i] by (auto simp: new_source_def Let_def)
qed (use assms(2) in \<open>simp_all add: new_source_def Let_def\<close>)

lemma table_inv_callback:
  assumes inv: "table_inv s" and t: "t \<in> firing s"
  shows "table_inv (callback tproxy t s)"
proof (rule table_invI)
  let ?u = "callback tproxy t s" and ?k = "tsSource s t"
  have sel: "clients ?u = (clients s)(?k := None)" "timers ?u = (timers s)(?k := None)" "nextTs ?u = nextTs s"
    "tsSource ?u = tsSource s" "readers ?u = readers s" "firing ?u = firing s - {t}" "armed ?u = armed s"
    "writing ?u = writing s" "failed ?u = failed s"
    by (simp_all add: callback_def Let_def split: option.split)
  have closed: "tsClosed ?u i \<longleftrightarrow> tsClosed s i \<or> tproxy \<and> clients s ?k = Some i" for i
    by (auto simp: callback_def Let_def split: option.split)
  have closing: "i \<in> closing ?u \<longleftrightarrow> i \<in> closing s \<or> \<not> tproxy \<and> i = t" for i
    by (auto simp: callback_def Let_def split: option.split)
  show "timers ?u = clients ?u" using table_invD(1) [OF inv] by (simp add: sel)
  show "i < nextTs ?u \<and> tsSource ?u i = k \<and> \<not> tsClosed ?u i \<and> i \<notin> closing ?u" if "clients ?u k = Some i" for k i
  proof -
    have k: "clients s k = Some i" "k \<noteq> ?k" using that by (auto simp: sel split: if_splits)
    note d = table_invD(2-4) [OF inv k(1)] table_invD'(1) [OF inv k(1)]
    have "clients s ?k \<noteq> Some i" using table_invD(3) [OF inv] k by metis
    then show ?thesis using d k(2) by (auto simp: sel closed closing)
  qed
  show "i < nextTs ?u" if "i \<in> closing ?u \<or> i \<in> readers ?u \<or> i \<in> firing ?u \<or> i \<in> armed ?u \<or> tsClosed ?u i" for i
    using that table_invD'(2-6) [OF inv, of i] table_invD'(4) [OF inv t] table_invD(2) [OF inv]
    by (auto simp: sel closed closing)
qed (use table_invD(5-8) [OF inv] in \<open>simp_all add: callback_def Let_def split: option.splits if_splits\<close>)

lemma table_inv_frame:
  assumes inv: "table_inv s" and "timers t = timers s" "clients t = clients s" "nextTs t = nextTs s" "tsSource t = tsSource s"
    and "tsClosed t = tsClosed s" "closing t = closing s" "readers t \<subseteq> readers s" "armed t \<union> firing t \<subseteq> armed s \<union> firing s"
    and "\<And>i k d. writing t = Some (i, k, d) \<Longrightarrow> i < nextTs s \<and> tsSource s i = k"
    and "\<And>i k. failed t = Some (i, k) \<Longrightarrow> i < nextTs s \<and> tsSource s i = k"
  shows "table_inv t"
proof (rule table_invI)
  show "i < nextTs t \<and> tsSource t i = k \<and> \<not> tsClosed t i \<and> i \<notin> closing t" if "clients t k = Some i" for k i
    using that table_invD(2-4) [OF inv, of k i] table_invD'(1) [OF inv, of k i] assms(3-7) by simp
  show "i < nextTs t" if "i \<in> closing t \<or> i \<in> readers t \<or> i \<in> firing t \<or> i \<in> armed t \<or> tsClosed t i" for i
  proof -
    have "i \<in> closing s \<or> i \<in> readers s \<or> i \<in> firing s \<or> i \<in> armed s \<or> tsClosed s i"
      using that assms(6-9) by auto
    then show ?thesis using table_invD'(2-6) [OF inv] assms(4) by metis
  qed
qed (use assms(2-5,10,11) table_invD(1) [OF inv] in \<open>simp_all\<close>)

lemmas table_inv_hands = table_invD(5-8)

lemma table_inv_cleanup:
  assumes inv: "table_inv s" and i: "i < nextTs s" "tsSource s i = k"
  shows "table_inv ((forget k s)\<lparr>closing := insert i (closing s)\<rparr>)"
proof -
  have "table_inv ((forget k s)\<lparr>closing := insert i (closing (forget k s))\<rparr>)"
    by (rule table_inv_closing [OF table_inv_forget [OF inv]]) (simp_all add: forget_sel inv i)
  then show ?thesis by (simp only: forget_sel)
qed

lemma us_table_step: "us_step tproxy s e t \<Longrightarrow> table_inv s \<Longrightarrow> table_inv t"
proof (induction rule: us_step.induct)
  case (us_known s k i d)
  show ?case
    by (rule table_inv_frame [OF table_inv_reset [OF us_known(4)], of _ k])
      (use us_known table_invD(2,3) [OF us_known(4,3)] in \<open>simp_all add: known_source_def reset_timer_sel\<close>)
next
  case (us_new s k d)
  then show ?case by (intro table_inv_new)
next
  case (us_refused s k d)
  then show ?case by (intro table_inv_frame [OF us_refused(4)]) (simp_all add: refused_source_def)
next
  case (us_wrote s i k d)
  then show ?case
    by (intro table_inv_frame [OF us_wrote(3)]) (use table_inv_hands [OF us_wrote(3)] in \<open>simp_all add: wrote_def\<close>)
next
  case (us_failed s i k d)
  show ?case
    by (rule table_inv_frame [OF us_failed(2)])
      (use table_inv_hands(1,2) [OF us_failed(2,1)] in \<open>simp_all add: write_failed_def split: if_splits\<close>)
next
  case (us_cleanup s i k)
  show ?case
    by (rule table_inv_frame [OF table_inv_cleanup [OF us_cleanup(2) table_inv_hands(3,4) [OF us_cleanup(2,1)]]])
      (use table_inv_hands(1,2) [OF us_cleanup(2)] in \<open>simp_all add: cleanup_def forget_sel\<close>)
next
  case (us_fire t s)
  show ?case
    by (rule table_inv_frame [OF us_fire(2)])
      (use us_fire(1) table_inv_hands [OF us_fire(2)] in \<open>auto simp: timer_fires_def\<close>)
next
  case (us_callback t s)
  then show ?case by (intro table_inv_callback)
next
  case (us_close i s)
  let ?t = "close_stream i s"
  show ?case
  proof (rule table_invI)
    fix k j assume "clients ?t k = Some j"
    then have c: "clients s k = Some j" by (simp add: close_stream_def)
    then have "j \<noteq> i" using table_invD'(1) [OF us_close(2) c] us_close(1) by blast
    then show "j < nextTs ?t \<and> tsSource ?t j = k \<and> \<not> tsClosed ?t j \<and> j \<notin> closing ?t"
      using table_invD(2-4) [OF us_close(2) c] table_invD'(1) [OF us_close(2) c] by (simp add: close_stream_def)
  next
    fix j assume "j \<in> closing ?t \<or> j \<in> readers ?t \<or> j \<in> firing ?t \<or> j \<in> armed ?t \<or> tsClosed ?t j"
    then show "j < nextTs ?t"
      using table_invD'(2-6) [OF us_close(2), of j] us_close(1) by (auto simp: close_stream_def split: if_splits)
  qed (use table_invD(1) [OF us_close(2)] table_inv_hands [OF us_close(2)] in \<open>simp_all add: close_stream_def\<close>)
next
  case (us_message i s binary p)
  show ?case
    by (rule table_inv_frame [OF table_inv_reset [OF us_message(2)], of _ "tsSource s i"])
      (use table_inv_hands [OF us_message(2)] in \<open>simp_all add: got_message_def Let_def reset_timer_sel split: if_splits\<close>)
next
  case (us_reader i s)
  show ?case
    by (rule table_inv_frame [OF table_inv_cleanup [OF us_reader(2) table_invD'(3) [OF us_reader(2,1)] refl]])
      (use table_inv_hands [OF us_reader(2)] in \<open>auto simp: reader_ends_def forget_sel\<close>)
qed

subsection \<open>What goes into a stream\<close>

definition from_source :: "string \<Rightarrow> (string \<times> byte list) list \<Rightarrow> byte list list" where
  "from_source k log = map snd (filter (\<lambda>(k', d). k' = k) log)"

definition held :: "udp_client \<Rightarrow> nat \<Rightarrow> byte list list" where
  "held s i = (case writing s of Some (j, k, d) \<Rightarrow> if j = i then [d] else [] | None \<Rightarrow> [])"

definition log_inv :: "udp_client \<Rightarrow> bool" where
  "log_inv s \<longleftrightarrow> table_inv s \<and> (\<forall>i. subseq (tsSent s i @ held s i) (from_source (tsSource s i) (received s))) \<and>
     (\<forall>i \<ge> nextTs s. tsSent s i = [])"

lemma log_inv_start: "log_inv startUdp"
  using table_inv_start by (simp add: log_inv_def startUdp_def held_def)

lemma from_source_snoc: "from_source k (log @ [(k', d)]) = from_source k log @ (if k' = k then [d] else [])"
  by (simp add: from_source_def)

lemma log_invD:
  assumes "log_inv s"
  shows "table_inv s" "subseq (tsSent s i @ held s i) (from_source (tsSource s i) (received s))"
    "nextTs s \<le> i \<Longrightarrow> tsSent s i = []"
  using assms unfolding log_inv_def by blast+

lemma log_inv_frame:
  assumes "log_inv s" "table_inv t" "tsSent t = tsSent s" "writing t = writing s \<or> writing t = None"
    and "tsSource t = tsSource s" "received t = received s" "nextTs t = nextTs s"
  shows "log_inv t"
proof -
  have "subseq (tsSent t i @ held t i) (tsSent s i @ held s i)" for i
    using assms(3,4) by (auto simp: held_def)
  then show ?thesis
    using assms log_invD [OF assms(1)] unfolding log_inv_def by (metis subseq_order.trans)
qed

text \<open>A datagram arrives for a stream of its source.\<close>

lemma log_inv_arrival:
  assumes inv: "log_inv s" and "writing s = None" "table_inv t" "tsSent t = tsSent s" "tsSource t = (tsSource s)(i := k)"
    and "received t = received s @ [(k, d)]" "writing t = Some (i, k, d)" "nextTs s \<le> nextTs t"
    and "tsSource s i = k \<or> nextTs s \<le> i"
  shows "log_inv t"
  unfolding log_inv_def
proof (intro conjI allI impI)
  fix j
  show "subseq (tsSent t j @ held t j) (from_source (tsSource t j) (received t))"
  proof (cases "j = i")
    case True
    have "subseq (tsSent s i) (from_source k (received s))"
      using log_invD(2) [OF inv, of i] log_invD(3) [OF inv, of i] assms(2,9) by (auto simp: held_def)
    then have "subseq (tsSent s i @ [d]) (from_source k (received s) @ [d])" by (simp add: list_emb_append_mono)
    then show ?thesis using True assms(4-7) by (simp add: held_def from_source_snoc)
  next
    case False
    then have "held t j = []" using assms(7) by (simp add: held_def)
    then show ?thesis using False log_invD(2) [OF inv, of j] assms(2,4-6)
      by (simp add: held_def from_source_snoc list_emb_prefix)
  qed
  show "tsSent t j = []" if "nextTs t \<le> j" using that assms(4,8) log_invD(3) [OF inv, of j] by simp
qed (rule assms(3))

lemma log_inv_step: "us_step tproxy s e t \<Longrightarrow> log_inv s \<Longrightarrow> log_inv t"
proof -
  assume st: "us_step tproxy s e t" and inv: "log_inv s"
  have tab: "table_inv t" by (rule us_table_step [OF st log_invD(1) [OF inv]])
  from st inv tab show "log_inv t"
  proof (induction rule: us_step.induct)
    case (us_known s k i d)
    have "tsSource s i = k" by (rule table_invD(3) [OF log_invD(1) [OF us_known(4)] us_known(3)])
    then show ?case
      by (intro log_inv_arrival [OF us_known(4,1,5), of i k d])
        (simp_all add: known_source_def reset_timer_sel fun_upd_idem)
  next
    case (us_new s k d)
    show ?case
      by (rule log_inv_arrival [OF us_new(4,1,5), of "nextTs s" k d]) (simp_all add: new_source_def Let_def)
  next
    case (us_refused s k d)
    have "subseq (tsSent s i @ held s i) (from_source (tsSource s i) (received s @ [(k, d)]))" for i
      using log_invD(2) [OF us_refused(4)] by (simp add: from_source_snoc list_emb_prefix)
    then show ?case using us_refused(5) log_invD(3) [OF us_refused(4)]
      by (simp add: log_inv_def refused_source_def held_def)
  next
    case (us_wrote s i k d)
    have "tsSent (wrote i d s) j @ held (wrote i d s) j = tsSent s j @ held s j" for j
      using us_wrote(1) by (simp add: wrote_def held_def)
    moreover have "tsSource (wrote i d s) = tsSource s" "received (wrote i d s) = received s" "nextTs (wrote i d s) = nextTs s"
      by (simp_all add: wrote_def)
    moreover have "i < nextTs s" by (rule table_invD(5) [OF log_invD(1) [OF us_wrote(3)] us_wrote(1)])
    then have "tsSent (wrote i d s) j = []" if "nextTs s \<le> j" for j
      using log_invD(3) [OF us_wrote(3) that] that by (auto simp: wrote_def)
    ultimately show ?case using us_wrote(4) log_invD(2) [OF us_wrote(3)] by (simp add: log_inv_def)
  next
    case (us_failed s i k d)
    then show ?case by (intro log_inv_frame [OF us_failed(2,3)]) (simp_all add: write_failed_def)
  next
    case (us_cleanup s i k)
    then show ?case by (intro log_inv_frame [OF us_cleanup(2,3)]) (simp_all add: cleanup_def forget_sel)
  next
    case (us_fire t s)
    then show ?case by (intro log_inv_frame [OF us_fire(2,3)]) (simp_all add: timer_fires_def)
  next
    case (us_callback t s)
    then show ?case
      by (intro log_inv_frame [OF us_callback(2,3)]) (simp_all add: callback_def Let_def split: option.split)
  next
    case (us_close i s)
    then show ?case by (intro log_inv_frame [OF us_close(2,3)]) (simp_all add: close_stream_def)
  next
    case (us_message i s binary p)
    then show ?case
      by (intro log_inv_frame [OF us_message(2,3)]) (simp_all add: got_message_def Let_def reset_timer_sel)
  next
    case (us_reader i s)
    then show ?case by (intro log_inv_frame [OF us_reader(2,3)]) (simp_all add: reader_ends_def forget_sel)
  qed
qed

interpretation ul: invariant "us_step tproxy" log_inv for tproxy
  by unfold_locales (rule log_inv_step)

text \<open>C17. The UDP listeners of the client keep sources apart. In every interleaving of the main loop, the
  timers and the readers, of the plain and of the transparent listener, the stream in the table for
  a source is open and was opened for that source, each entry has its timer, and what was written
  into a stream is a subsequence, in order, of the datagrams its source sent.\<close>

theorem udp_sources_apart:
  assumes "runUdpTunnel es s \<or> runTProxyUdpTunnel es s"
  shows "timers s = clients s \<and> (\<forall>k i. clients s k = Some i \<longrightarrow> tsSource s i = k \<and> \<not> tsClosed s i) \<and>
    (\<forall>i. subseq (tsSent s i) (from_source (tsSource s i) (received s)))"
proof -
  have inv: "log_inv s" using assms ul.inv_run [OF _ log_inv_start]
    by (auto simp: runUdpTunnel_def runTProxyUdpTunnel_def)
  have "subseq (tsSent s i) (tsSent s i @ held s i)" for i by (rule list_emb_prefix) simp
  then have "subseq (tsSent s i) (from_source (tsSource s i) (received s))" for i
    using log_invD(2) [OF inv] subseq_order.trans by blast
  then show ?thesis using table_invD(1,3,4) [OF log_invD(1) [OF inv]] by blast
qed

definition us1 :: udp_client where "us1 = new_source ''p'' [1] startUdp"
definition us2 :: udp_client where "us2 = write_failed False 0 ''p'' us1"
definition us3 :: udp_client where "us3 = cleanup 0 ''p'' us2"
definition us4 :: udp_client where "us4 = close_stream 0 us3"
definition us5 :: udp_client where "us5 = new_source ''p'' [2] us4"
definition us6 :: udp_client where "us6 = wrote 1 [2] us5"
definition us7 :: udp_client where "us7 = reader_ends 0 us6"

lemmas us_demo_defs = us1_def us2_def us3_def us4_def us5_def us6_def us7_def startUdp_def
  new_source_def wrote_def write_failed_def forget_def cleanup_def close_stream_def reader_ends_def Let_def

lemma us_demo_run6:
  "run (us_step False) startUdp
     [Datagram ''p'', WriteFailed 0, CleanedUp 0, StreamClosed 0, Datagram ''p'', Wrote 1] us6"
proof (intro run_Cons)
  show "us_step False startUdp (Datagram ''p'') us1"
    unfolding us1_def by (rule us_new) (simp_all add: startUdp_def)
  show "us_step False us1 (WriteFailed 0) us2"
    unfolding us2_def by (rule us_failed) (simp add: us_demo_defs)
  show "us_step False us2 (CleanedUp 0) us3"
    unfolding us3_def by (rule us_cleanup) (simp add: us_demo_defs)
  show "us_step False us3 (StreamClosed 0) us4"
    unfolding us4_def by (rule us_close) (simp add: us_demo_defs)
  show "us_step False us4 (Datagram ''p'') us5"
    unfolding us5_def by (rule us_new) (simp_all add: us_demo_defs)
  show "us_step False us5 (Wrote 1) us6"
    unfolding us6_def by (rule us_wrote) (simp_all add: us_demo_defs)
qed (rule run_Nil)

lemma us_demo_step7: "us_step False us6 (ReaderEnded 0) us7"
  unfolding us7_def by (rule us_reader) (simp add: us_demo_defs)

theorem udp_sources_apart_witness:
  "timers us6 = clients us6 \<and> clients us6 ''p'' = Some 1 \<and> tsSource us6 1 = ''p'' \<and> \<not> tsClosed us6 1 \<and>
   tsSent us6 1 = [[2]] \<and> subseq (tsSent us6 1) (from_source ''p'' (received us6))"
proof -
  have "clients us6 ''p'' = Some 1" "tsSource us6 1 = ''p''" "tsSent us6 1 = [[2]]" by (simp_all add: us_demo_defs)
  then show ?thesis using udp_sources_apart [OF disjI1, OF us_demo_run6 [folded runUdpTunnel_def]] by metis
qed

subsection \<open>A stream that nothing reclaims\<close>

definition orphan :: "nat \<Rightarrow> udp_client \<Rightarrow> bool" where
  "orphan i s \<longleftrightarrow> i < nextTs s \<and> \<not> tsClosed s i \<and> i \<notin> closing s \<and> i \<notin> armed s \<and> i \<notin> firing s \<and>
     (\<forall>k. clients s k \<noteq> Some i) \<and> (\<forall>k. timers s k \<noteq> Some i) \<and> (\<forall>k d. writing s \<noteq> Some (i, k, d)) \<and>
     (\<forall>k. failed s \<noteq> Some (i, k))"

lemma orphan_reset: "orphan i s \<Longrightarrow> orphan i (reset_timer k s)"
  by (auto simp: orphan_def reset_timer_def split: option.split)

lemma orphan_forget: "orphan i s \<Longrightarrow> orphan i (forget k s)"
  by (auto simp: orphan_def forget_def split: option.split)

lemma orphan_step:
  "us_step False s e t \<Longrightarrow> orphan i s \<Longrightarrow> e \<noteq> ReaderEnded i \<Longrightarrow> orphan i t"
proof (induction rule: us_step.induct)
  case (us_known s k j d)
  from orphan_reset [OF us_known(4)] show ?case
    using us_known(3,4) by (auto simp: orphan_def known_source_def)
next
  case (us_message j s binary p)
  from orphan_reset [OF us_message(2)] show ?case by (auto simp: orphan_def got_message_def Let_def)
next
  case (us_cleanup s j k)
  from orphan_forget [OF us_cleanup(2), of k] show ?case
    using us_cleanup(1,2) by (auto simp: orphan_def cleanup_def forget_sel)
next
  case (us_reader j s)
  from orphan_forget [OF us_reader(2), of "tsSource s j"] show ?case
    using us_reader(3) by (auto simp: orphan_def reader_ends_def forget_sel)
qed (auto simp: orphan_def new_source_def refused_source_def wrote_def write_failed_def timer_fires_def callback_def
    close_stream_def Let_def)

lemma orphan_run:
  assumes "run (us_step False) s es t" "orphan i s" "ReaderEnded i \<notin> set es"
  shows "orphan i t"
  using assms by (induction rule: run.induct) (auto intro: orphan_step)

text \<open>C38. A session can be left behind. When a write fails, the source gets a new stream with its next
  datagram; the reader of the old stream then ends and, deleting by the key of the source, takes the
  new stream out of the table and stops its timer. From then on nothing but the end of its own
  reader ever closes the new stream: no timer, no later datagram.\<close>

theorem udp_session_leak:
  "\<exists>es s. runUdpTunnel es s \<and> orphan 1 s \<and> 1 \<in> readers s \<and>
     (\<forall>fs t. run (us_step False) s fs t \<and> ReaderEnded 1 \<notin> set fs \<longrightarrow> \<not> tsClosed t 1 \<and> clients t (tsSource s 1) \<noteq> Some 1)"
proof -
  have "runUdpTunnel
      ([Datagram ''p'', WriteFailed 0, CleanedUp 0, StreamClosed 0, Datagram ''p'', Wrote 1] @ [ReaderEnded 0]) us7"
    unfolding runUdpTunnel_def by (rule run_snoc [OF us_demo_run6 us_demo_step7])
  moreover have o: "orphan 1 us7" "1 \<in> readers us7" by (simp_all add: orphan_def us_demo_defs)
  moreover have "\<not> tsClosed t 1 \<and> clients t k \<noteq> Some 1"
    if "run (us_step False) us7 fs t" "ReaderEnded 1 \<notin> set fs" for fs t k
    using orphan_run [OF that(1) o(1) that(2)] by (auto simp: orphan_def)
  ultimately show ?thesis by blast
qed

theorem udp_session_leak_witness:
  "\<exists>es s. runUdpTunnel es s \<and> orphan 1 s \<and> 1 \<in> readers s \<and> \<not> tsClosed s 1 \<and>
     clients s (tsSource s 1) \<noteq> Some 1"
  using udp_session_leak run_Nil [of "us_step False"] by fastforce

end
