(* ===== verification/Client_Tunnels.thy ===== *)
theory Client_Tunnels
  imports Http_Proxy Tunnel_Arg Orig_Dst Udp_Sessions
begin

text \<open>
  The forward tunnels of the client, \<^verbatim>\<open>pkg/client/client.go\<close>: which runner serves a tunnel, what it
  listens on, and what becomes of each local connection. A listener is given by the answer to its bind
  and by the results of its accepts, each connection with the environment its goroutine finds. The
  datagram runners are in \<open>Udp_Sessions\<close>.
\<close>

subsection \<open>Runners\<close>

datatype runner = RunStdio | RunUdp | RunSocks5 | RunHttpProxy | RunUnix | RunTProxyTcp | RunTProxyUdp | RunTcp

definition StartTunnel :: "LocalToRemote \<Rightarrow> runner" where
  "StartTunnel ltr =
     (let p = ltrProtocol ltr in
      if Stdio p \<noteq> None then RunStdio
      else if Udp p \<noteq> None then RunUdp
      else if Socks5 p \<noteq> None then RunSocks5
      else if HttpProxy p \<noteq> None then RunHttpProxy
      else if Unix p \<noteq> None then RunUnix
      else if TProxyTcp p \<noteq> None then RunTProxyTcp
      else if TProxyUdp p \<noteq> None then RunTProxyUdp
      else RunTcp)"

text \<open>The protocol that the connections of a runner carry in their tokens.\<close>

definition token_protocol :: "runner \<Rightarrow> LocalProtocol \<Rightarrow> LocalProtocol" where
  "token_protocol r p =
     (case r of
        RunSocks5 \<Rightarrow> tcpProto
      | RunHttpProxy \<Rightarrow> tcpProto
      | RunTProxyTcp \<Rightarrow> tcpProto
      | RunTProxyUdp \<Rightarrow>
          noProtocol\<lparr>Udp := Some \<lparr>udpTimeout = (case TProxyUdp p of Some t \<Rightarrow> udpTimeout t | None \<Rightarrow> None)\<rparr>\<rparr>
      | _ \<Rightarrow> p)"

subsection \<open>Connections\<close>

definition handle_plain :: "runner \<Rightarrow> LocalToRemote \<Rightarrow> ClientConfig \<Rightarrow> 'g client_env \<Rightarrow> conn \<Rightarrow> 'g local_conn" where
  "handle_plain r ltr cfg env c =
     tunnel_conn env cfg (token_protocol r (ltrProtocol ltr)) (ltrRemote ltr) (ltrPort ltr) c"

definition handle_socks :: "LocalToRemote \<Rightarrow> ClientConfig \<Rightarrow> 'g client_env \<Rightarrow> conn \<Rightarrow> 'g local_conn" where
  "handle_socks ltr cfg env c =
     (case handleSocks5 (case Socks5 (ltrProtocol ltr) of None \<Rightarrow> None | Some s \<Rightarrow> socksCredentials s) c of
        (Inl e, c1) \<Rightarrow> ConnClosed e c1
      | (Inr (host, prt), c1) \<Rightarrow> tunnel_conn env cfg (token_protocol RunSocks5 (ltrProtocol ltr)) host prt c1)"

text \<open>The destination of an intercepted TCP connection: its local address, or the one the kernel remembers.
  \<open>origDst\<close> is the answer of \<^verbatim>\<open>socket.GetOriginalDst\<close>.\<close>

definition addrToHostPortParsed :: "string option \<Rightarrow> go_error + string \<times> port" where
  "addrToHostPortParsed a =
     (case a of
        None \<Rightarrow> Inr ([], 0)
      | Some s \<Rightarrow> (case SplitHostPort s of Inl e \<Rightarrow> Inl e | Inr (h, p) \<Rightarrow> Inr (h, scan_port p)))"

definition tproxy_tcp_target :: "string option \<Rightarrow> go_error + string \<times> port \<Rightarrow> go_error + string \<times> port" where
  "tproxy_tcp_target localAddr origDst =
     (case addrToHostPortParsed localAddr of
        Inr (host, prt) \<Rightarrow> if host = [] \<or> prt = 0 then origDst else Inr (host, prt)
      | Inl e \<Rightarrow> origDst)"

definition handle_tproxy ::
  "LocalToRemote \<Rightarrow> ClientConfig \<Rightarrow> string option \<Rightarrow> go_error + string \<times> port \<Rightarrow> 'g client_env \<Rightarrow> conn \<Rightarrow> 'g local_conn" where
  "handle_tproxy ltr cfg localAddr origDst env c =
     (case tproxy_tcp_target localAddr origDst of
        Inl e \<Rightarrow> ConnClosed e c
      | Inr (host, prt) \<Rightarrow> tunnel_conn env cfg (token_protocol RunTProxyTcp (ltrProtocol ltr)) host prt c)"

text \<open>The destination of an intercepted datagram, from its control messages \<open>oob\<close>.\<close>

definition tproxy_udp_target :: "LocalToRemote \<Rightarrow> byte list \<Rightarrow> go_error + string \<times> port \<Rightarrow> string \<times> port" where
  "tproxy_udp_target ltr oob origDst =
     (let configured =
        (if ltrRemote ltr = [] \<or> ltrRemote ltr = ''0.0.0.0'' \<or> ltrPort ltr = 0
         then (case origDst of Inl e \<Rightarrow> ([], 0) | Inr d \<Rightarrow> d) else (ltrRemote ltr, ltrPort ltr)) in
      case ParseOrigDstAddr oob of
        Inl e \<Rightarrow> configured
      | Inr (host, prt) \<Rightarrow> if host = [] \<or> prt = 0 then configured else (host, prt))"

subsection \<open>Listeners\<close>

text \<open>A listener that cannot bind ends its tunnel; a failed accept is skipped.\<close>

type_synonym ('g, 'l) accepts = "(go_error + 'g client_env \<times> 'l \<times> conn) list"

definition accept_loop ::
  "(string \<Rightarrow> string \<Rightarrow> go_error option) \<Rightarrow> string \<Rightarrow> string \<Rightarrow> ('g client_env \<Rightarrow> 'l \<Rightarrow> conn \<Rightarrow> 'o) \<Rightarrow> ('g, 'l) accepts \<Rightarrow>
   go_error + 'o list" where
  "accept_loop listen network a handle as =
     (case listen network a of
        Some e \<Rightarrow> Inl e
      | None \<Rightarrow> Inr (concat (map (\<lambda>x. case x of Inl e \<Rightarrow> [] | Inr (env, l, c) \<Rightarrow> [handle env l c]) as)))"

definition runTcpTunnel where
  "runTcpTunnel listen cfg ltr as = accept_loop listen ''tcp'' (ltrLocal ltr) (\<lambda>env l c. handle_plain RunTcp ltr cfg env c) as"

definition runUnixTunnel where
  "runUnixTunnel listen cfg ltr as = accept_loop listen ''unix'' (ltrLocal ltr) (\<lambda>env l c. handle_plain RunUnix ltr cfg env c) as"

definition runSocks5Tunnel where
  "runSocks5Tunnel listen cfg ltr as = accept_loop listen ''tcp'' (ltrLocal ltr) (\<lambda>env l c. handle_socks ltr cfg env c) as"

definition runHttpProxyTunnel where
  "runHttpProxyTunnel listen cfg ltr as =
     accept_loop listen ''tcp'' (ltrLocal ltr) (\<lambda>env buffered c. handleHttpProxy env cfg ltr buffered c) as"

definition runTProxyTcpTunnel where
  "runTProxyTcpTunnel listen cfg ltr as =
     accept_loop listen ''tcp'' (ltrLocal ltr) (\<lambda>env l c. handle_tproxy ltr cfg (fst l) (snd l) env c) as"

text \<open>Standard input and output are one connection, which is not closed afterwards. The pump is chosen as
  for a network connection, among the variants for plain readers and writers.\<close>

definition startPipeRWC :: "ClientConfig \<Rightarrow> 'g tunnelStream \<Rightarrow> 'g pump" where
  "startPipeRWC cfg ts =
     (case ts of
        WS c \<Rightarrow> PumpWst (SetPingHandler c (Some ReplyPing)) (cPingFrequency cfg > 0)
      | Gorilla g \<Rightarrow> PumpGorilla g (cPingFrequency cfg > 0)
      | H2 c \<Rightarrow> PumpBiDir c
      | NoStream \<Rightarrow> PumpNil)"

definition runStdioTunnel :: "ClientConfig \<Rightarrow> LocalToRemote \<Rightarrow> 'g client_env \<Rightarrow> conn \<Rightarrow> 'g local_conn" where
  "runStdioTunnel cfg ltr env stdio =
     (case connectToTransport env cfg (token_protocol RunStdio (ltrProtocol ltr)) (ltrRemote ltr) (ltrPort ltr) of
        Inl e \<Rightarrow> ConnClosed e stdio
      | Inr (ts, r) \<Rightarrow> ConnPiped stdio (startPipeRWC cfg ts))"

lemma startPipeRWC_eq: "startPipeRWC cfg ts = startPipe cfg ts"
  by (cases ts) (simp_all add: startPipeRWC_def)

subsection \<open>Every kind of tunnel is served, except one\<close>

lemma forward_forms:
  assumes "ParseTunnelArg conv arg False = Inr ltr"
  obtains a where "ltrProtocol ltr = noProtocol\<lparr>Tcp := Some a\<rparr>" | a where "ltrProtocol ltr = noProtocol\<lparr>Udp := Some a\<rparr>"
  | a where "ltrProtocol ltr = noProtocol\<lparr>Stdio := Some a\<rparr>" | a where "ltrProtocol ltr = noProtocol\<lparr>Socks5 := Some a\<rparr>"
  | a where "ltrProtocol ltr = noProtocol\<lparr>HttpProxy := Some a\<rparr>" | a where "ltrProtocol ltr = noProtocol\<lparr>Unix := Some a\<rparr>"
  | a where "ltrProtocol ltr = noProtocol\<lparr>TProxyTcp := Some a\<rparr>" | a where "ltrProtocol ltr = noProtocol\<lparr>TProxyUdp := Some a\<rparr>"
proof -
  obtain proto rest where c: "Cut ''://'' arg = Some (proto, rest)"
    using assms by (auto simp: ParseTunnelArg_def split: option.splits)
  obtain info opts where o: "split_options rest = (info, opts)" by force
  consider "proto = ''stdio''" | "proto = ''unix''" | "proto \<noteq> ''stdio''" "proto \<noteq> ''unix''" by blast
  then show thesis
  proof cases
    case 1
    then show thesis using assms c o that(3) by (auto simp: ParseTunnelArg_def parse_stdio_def split: sum.splits)
  next
    case 2
    then show thesis using assms c o that(6)
      by (auto simp: ParseTunnelArg_def parse_unix_def Let_def split: prod.splits)
  next
    case 3
    then have "protocol_for conv False opts proto = Some (ltrProtocol ltr)"
      using assms c o by (auto simp: ParseTunnelArg_def split: option.splits)
    then show thesis
      by (auto simp: protocol_for_def Let_def dest: sym split: if_splits intro: that)
  qed
qed

text \<open>C14. From the command line to the target. For every forward argument the client accepts, the protocol
  in the tokens of its connections is one the server forwards: over UDP for the datagram runners, to a
  Unix socket for a Unix tunnel, over TCP otherwise, and never to the reverse tunnel manager. The one
  exception is \<^verbatim>\<open>stdio\<close>, which the server does not support.\<close>

theorem tunnel_kinds_served:
  assumes "ParseTunnelArg conv arg False = Inr ltr"
    and "claims = \<lparr>ID = i, Protocol = token_protocol (StartTunnel ltr) (ltrProtocol ltr), Remote = h, Port = n\<rparr>"
  shows "handle_tunnel dial claims src \<noteq> ToManager \<and>
    (handle_tunnel dial claims src = UnsupportedProtocol \<longleftrightarrow> StartTunnel ltr = RunStdio) \<and>
    fst (target_of claims) =
      (if StartTunnel ltr \<in> {RunUdp, RunTProxyUdp} then ''udp'' else if StartTunnel ltr = RunUnix then ''unix'' else ''tcp'')"
  by (rule forward_forms [OF assms(1)])
    (simp_all add: assms(2) StartTunnel_def token_protocol_def handle_tunnel_def isForward_def isReverse_def target_of_def
      tcpProto_def noProtocol_def split: sum.split)

theorem tunnel_kinds_served_witness:
  "ParseTunnelArg (\<lambda>d. 0) ''tproxy+udp://1'' False = Inr \<lparr>ltrProtocol = noProtocol\<lparr>TProxyUdp := Some
       \<lparr>udpTimeout = Some \<lparr>Secs = 30, Nanos = 0\<rparr>\<rparr>\<rparr>, ltrLocal = ''127.0.0.1:1'', ltrRemote = ''0.0.0.0'', ltrPort = 0\<rparr> \<and>
   fst (target_of \<lparr>ID = [], Protocol = token_protocol RunTProxyUdp (noProtocol\<lparr>TProxyUdp := Some
       \<lparr>udpTimeout = Some \<lparr>Secs = 30, Nanos = 0\<rparr>\<rparr>\<rparr>), Remote = ''d'', Port = 53\<rparr>) = ''udp''"
proof -
  let ?l = "\<lparr>ltrProtocol = noProtocol\<lparr>TProxyUdp := Some \<lparr>udpTimeout = Some \<lparr>Secs = 30, Nanos = 0\<rparr>\<rparr>\<rparr>,
      ltrLocal = ''127.0.0.1:1'', ltrRemote = ''0.0.0.0'', ltrPort = 0\<rparr>"
  have l: "ParseTunnelArg (\<lambda>d. 0) ''tproxy+udp://1'' False = Inr ?l" by code_simp
  have s: "StartTunnel ?l = RunTProxyUdp" by (simp add: StartTunnel_def noProtocol_def)
  from tunnel_kinds_served [OF l refl, where i = "[]" and h = "''d''" and n = 53, unfolded s] l show ?thesis by simp
qed

text \<open>What the kernel remembers of a redirected connection is not asked for: an accepted connection has a local
  address with a host and a port, and that address is the target.\<close>

lemma redirect_not_followed:
  assumes "SplitHostPort a = Inr (h, p)" "h \<noteq> []" "scan_port p \<noteq> 0"
  shows "tproxy_tcp_target (Some a) origDst = Inr (h, scan_port p)"
  using assms by (simp add: tproxy_tcp_target_def addrToHostPortParsed_def)

end
