(* ===== verification/Reverse_Client.thy ===== *)
theory Reverse_Client
  imports Client_Connect Server_Gate
begin

text \<open>
  The client side of a reverse tunnel, \<^verbatim>\<open>StartReverseTunnel\<close> of \<^verbatim>\<open>pkg/client/client.go\<close>: connect to the
  server, learn the destination of the next connection, dial it locally, pump, and start over, with a
  growing pause while the server cannot be reached. Each round takes the answers of its surroundings
  from a list; the loop never returns, and the lemmas are about its pauses and destinations.
\<close>

subsection \<open>Pauses\<close>

text \<open>\<^verbatim>\<open>time.Duration\<close> as a signed 64-bit number of nanoseconds.\<close>

definition wrap64 :: "int \<Rightarrow> int" where
  "wrap64 x = (x + 2 ^ 63) mod 2 ^ 64 - 2 ^ 63"

definition second :: int where
  "second = 1000000000"

definition maxDelay :: "ClientConfig \<Rightarrow> int" where
  "maxDelay cfg =
     (if cReverseTunnelConnectionRetryMaxBackoff cfg = 0 then 10 * second else cReverseTunnelConnectionRetryMaxBackoff cfg)"

definition next_delay :: "ClientConfig \<Rightarrow> int \<Rightarrow> int" where
  "next_delay cfg delay = (let d = wrap64 (delay * 2) in if d > maxDelay cfg then maxDelay cfg else d)"

subsection \<open>Destinations\<close>

text \<open>The destination of the next connection: from the frame of a dynamic tunnel, from the token in the
  answer of the server, or the configured one.\<close>

definition reverse_target ::
  "'g message_reader \<Rightarrow> parse_unverified \<Rightarrow> LocalToRemote \<Rightarrow> 'g tunnelStream \<Rightarrow> response \<Rightarrow>
   (go_error + string \<times> port \<times> LocalProtocol) \<times> 'g tunnelStream" where
  "reverse_target gread ParseUnverified ltr ts r =
     (let configured = (ltrRemote ltr, ltrPort ltr, ltrProtocol ltr); cookie = Get (respHeader r) ''Set-Cookie'' in
      if ReverseSocks5 (ltrProtocol ltr) \<noteq> None \<or> ReverseHttpProxy (ltrProtocol ltr) \<noteq> None then
        (case readTargetFrame gread ts of
           (Inl e, ts') \<Rightarrow> (Inl e, ts')
         | (Inr (host, prt), ts') \<Rightarrow> (Inr (host, prt, ltrProtocol ltr), ts'))
      else if cookie \<noteq> [] then
        (case ParseUnverified cookie of
           Inr (claims, a) \<Rightarrow>
             if Remote claims \<noteq> [] then (Inr (Remote claims, Port claims, Protocol claims), ts) else (Inr configured, ts)
         | Inl e \<Rightarrow> (Inr configured, ts))
      else (Inr configured, ts))"

definition local_address :: "string \<times> port \<times> LocalProtocol \<Rightarrow> string \<times> string" where
  "local_address d =
     (case d of (host, prt, p) \<Rightarrow>
        (case Unix p of
           Some u \<Rightarrow> (''unix'', unixPath u)
         | None \<Rightarrow>
             (case ReverseUnix p of
                Some u \<Rightarrow> (''unix'', rUnixPath u)
              | None \<Rightarrow> (''tcp'', hostport host prt))))"

subsection \<open>Rounds\<close>

record 'g round_answers =
  connected :: "go_error + 'g tunnelStream \<times> response"
  gorillaRead :: "'g message_reader"
  dialLocal :: "string \<Rightarrow> string \<Rightarrow> go_error + conn"

datatype 'g reverse_outcome =
  NotConnected go_error | NoFrame go_error | LocalFailed go_error | Established conn "'g pump"

text \<open>One round: what came of it, the pause before the next one, and the delay it starts with.\<close>

definition reverse_round ::
  "parse_unverified \<Rightarrow> ClientConfig \<Rightarrow> LocalToRemote \<Rightarrow> int \<Rightarrow> 'g round_answers \<Rightarrow>
   'g reverse_outcome \<times> int option \<times> int" where
  "reverse_round ParseUnverified cfg ltr delay a =
     (case connected a of
        Inl e \<Rightarrow> (NotConnected e, Some delay, next_delay cfg delay)
      | Inr (ts, r) \<Rightarrow>
          (case reverse_target (gorillaRead a) ParseUnverified ltr ts r of
             (Inl e, ts') \<Rightarrow> (NoFrame e, Some second, second)
           | (Inr d, ts') \<Rightarrow>
               (case dialLocal a (fst (local_address d)) (snd (local_address d)) of
                  Inl e \<Rightarrow> (LocalFailed e, Some second, second)
                | Inr c \<Rightarrow> (Established c (startPipe cfg ts'), None, second))))"

fun StartReverseTunnel_from ::
  "parse_unverified \<Rightarrow> ClientConfig \<Rightarrow> LocalToRemote \<Rightarrow> int \<Rightarrow> 'g round_answers list \<Rightarrow>
   ('g reverse_outcome \<times> int option) list" where
  "StartReverseTunnel_from pu cfg ltr delay [] = []"
| "StartReverseTunnel_from pu cfg ltr delay (a # as) =
     (case reverse_round pu cfg ltr delay a of
        (o', pause, delay') \<Rightarrow> (o', pause) # StartReverseTunnel_from pu cfg ltr delay' as)"

definition StartReverseTunnel ::
  "parse_unverified \<Rightarrow> ClientConfig \<Rightarrow> LocalToRemote \<Rightarrow> 'g round_answers list \<Rightarrow>
   ('g reverse_outcome \<times> int option) list" where
  "StartReverseTunnel pu cfg ltr as = StartReverseTunnel_from pu cfg ltr second as"

definition pauses :: "('g reverse_outcome \<times> int option) list \<Rightarrow> int list" where
  "pauses rs = concat (map (\<lambda>r. case snd r of None \<Rightarrow> [] | Some p \<Rightarrow> [p]) rs)"

definition refused :: "'g round_answers \<Rightarrow> bool" where
  "refused a \<longleftrightarrow> (case connected a of Inl e \<Rightarrow> True | Inr x \<Rightarrow> False)"

subsection \<open>The backoff\<close>

lemma wrap64_id: "- (2 ^ 63) \<le> x \<Longrightarrow> x < 2 ^ 63 \<Longrightarrow> wrap64 x = x"
  by (simp add: wrap64_def)

lemma next_delay_min:
  assumes "0 < delay" "delay \<le> max second (maxDelay cfg)" "maxDelay cfg < 2 ^ 62"
  shows "next_delay cfg delay = min (delay * 2) (maxDelay cfg)"
proof -
  have "delay * 2 < 2 ^ 63" using assms(2,3) by (auto simp: second_def)
  then have "wrap64 (delay * 2) = delay * 2" using assms(1) by (intro wrap64_id) auto
  then show ?thesis by (simp add: next_delay_def Let_def min_def)
qed

definition good_delay :: "ClientConfig \<Rightarrow> int \<Rightarrow> bool" where
  "good_delay cfg d \<longleftrightarrow> 0 < d \<and> d \<le> max second (maxDelay cfg)"

lemma good_second: "good_delay cfg second"
  by (simp add: good_delay_def second_def)

lemma good_next:
  assumes "0 < maxDelay cfg" "maxDelay cfg < 2 ^ 62" "good_delay cfg d"
  shows "good_delay cfg (next_delay cfg d)" "next_delay cfg d = min (d * 2) (maxDelay cfg)"
  using assms next_delay_min [of d cfg] by (auto simp: good_delay_def)

lemma reverse_round_delay:
  assumes "reverse_round pu cfg ltr d a = (o', pause, d')"
  shows "if refused a then pause = Some d \<and> d' = next_delay cfg d else pause \<in> {None, Some second} \<and> d' = second"
  using assms by (auto simp: reverse_round_def refused_def split: sum.splits prod.splits)

lemma pauses_good:
  assumes "0 < maxDelay cfg" "maxDelay cfg < 2 ^ 62" "good_delay cfg d"
  shows "list_all (good_delay cfg) (pauses (StartReverseTunnel_from pu cfg ltr d as))"
  using assms(3)
proof (induction as arbitrary: d)
  case (Cons a as)
  obtain o' pause d' where r: "reverse_round pu cfg ltr d a = (o', pause, d')" by (metis prod_cases3)
  note rd = reverse_round_delay [OF r]
  have "good_delay cfg d'" using rd good_next(1) [OF assms(1,2) Cons.prems] good_second by (auto split: if_splits)
  moreover have "pause = None \<or> (\<exists>p. pause = Some p \<and> good_delay cfg p)"
    using rd Cons.prems good_second by (auto split: if_splits)
  ultimately show ?case using Cons.IH [of d'] r by (auto simp: pauses_def)
qed (simp add: pauses_def)

lemma min_double: "0 < (m :: int) \<Longrightarrow> min (min (d * 2) m * 2 ^ j) m = min (d * (2 * 2 ^ j)) m"
proof -
  assume m: "0 < m"
  then have "m * 1 \<le> m * 2 ^ j" by (intro mult_left_mono) auto
  moreover have "min (d * 2) m * 2 ^ j = min (d * (2 * 2 ^ j)) (m * 2 ^ j)"
    by (simp add: min_mult_distrib_right mult.assoc)
  ultimately show ?thesis by (simp add: min.assoc)
qed

lemma pauses_refused:
  assumes m: "0 < maxDelay cfg" "maxDelay cfg < 2 ^ 62" and "good_delay cfg d" "list_all refused as"
  shows "pauses (StartReverseTunnel_from pu cfg ltr d as) =
    map (\<lambda>j. if j = 0 then d else min (d * 2 ^ j) (maxDelay cfg)) [0..<length as]"
  using assms(3,4)
proof (induction as arbitrary: d)
  case (Cons a as)
  obtain o' pause d' where r: "reverse_round pu cfg ltr d a = (o', pause, d')" by (metis prod_cases3)
  have d': "pause = Some d" "d' = min (d * 2) (maxDelay cfg)" "good_delay cfg d'"
    using reverse_round_delay [OF r] Cons.prems good_next [OF m Cons.prems(1)] by auto
  have "pauses (StartReverseTunnel_from pu cfg ltr d (a # as)) =
      d # map (\<lambda>j. if j = 0 then d' else min (d' * 2 ^ j) (maxDelay cfg)) [0..<length as]"
    using Cons.IH [OF d'(3)] Cons.prems r d'(1) by (simp add: pauses_def)
  also have "map (\<lambda>j. if j = 0 then d' else min (d' * 2 ^ j) (maxDelay cfg)) [0..<length as] =
      map (\<lambda>j. min (d * 2 ^ Suc j) (maxDelay cfg)) [0..<length as]"
    using min_double [OF m(1), of d] by (auto simp: d'(2) mult.assoc)
  finally show ?case by (simp add: upt_rec [of 0 "Suc (length as)"] map_Suc_upt [symmetric] del: upt_Suc)
qed (simp add: pauses_def)

lemma delay_after:
  "as \<noteq> [] \<Longrightarrow> \<not> refused (last as) \<Longrightarrow>
   StartReverseTunnel_from pu cfg ltr d (as @ bs) =
   StartReverseTunnel_from pu cfg ltr d as @ StartReverseTunnel_from pu cfg ltr second bs"
proof (induction as arbitrary: d)
  case (Cons a as)
  obtain o' pause d' where r: "reverse_round pu cfg ltr d a = (o', pause, d')" by (metis prod_cases3)
  then show ?case using Cons reverse_round_delay [OF r] by (cases "as = []") auto
qed simp

lemma rounds_length: "length (StartReverseTunnel_from pu cfg ltr d as) = length as"
  by (induction as arbitrary: d) (auto split: prod.split)

text \<open>C32. The pauses of a reverse tunnel. Whatever happens before, from the start or from a round that
  reached the server, consecutive refused rounds pause one second, then two, four and so on, each but
  the first cut off at the configured maximum; and no pause of the loop is zero, negative or longer
  than the larger of that maximum and one second. The first pause ignores a maximum below one second.\<close>

theorem reverse_backoff:
  assumes "0 < maxDelay cfg" "maxDelay cfg < 2 ^ 62"
    and "pre = [] \<or> \<not> refused (last pre)" "list_all refused fails"
  shows "pauses (drop (length pre) (StartReverseTunnel pu cfg ltr (pre @ fails))) =
      map (\<lambda>j. if j = 0 then second else min (second * 2 ^ j) (maxDelay cfg)) [0..<length fails] \<and>
    list_all (\<lambda>p. 0 < p \<and> p \<le> max second (maxDelay cfg)) (pauses (StartReverseTunnel pu cfg ltr (pre @ fails)))"
proof -
  have "StartReverseTunnel pu cfg ltr (pre @ fails) =
      StartReverseTunnel_from pu cfg ltr second pre @ StartReverseTunnel_from pu cfg ltr second fails"
    using assms(3) by (cases "pre = []") (auto simp: StartReverseTunnel_def delay_after)
  then have "drop (length pre) (StartReverseTunnel pu cfg ltr (pre @ fails)) = StartReverseTunnel_from pu cfg ltr second fails"
    by (simp add: rounds_length)
  then show ?thesis
    using pauses_refused [OF assms(1,2) good_second assms(4)] pauses_good [OF assms(1,2) good_second]
    by (simp add: StartReverseTunnel_def good_delay_def [abs_def])
qed

definition offline :: "unit round_answers" where
  "offline = \<lparr>connected = Inl EOF, gorillaRead = \<lambda>g. ((0, [], None), g), dialLocal = \<lambda>n a. Inl EOF\<rparr>"

definition online :: "unit round_answers" where
  "online = \<lparr>connected = Inr (NoStream, \<lparr>Status = [], StatusCode = 200, respHeader = []\<rparr>),
     gorillaRead = \<lambda>g. ((0, [], None), g), dialLocal = \<lambda>n a. Inl EOF\<rparr>"

definition bare_client :: ClientConfig where
  "bare_client = \<lparr>cServerURL = [], cPathPrefix = [], cJWTSecret = [], cHeaders = [], cMaskFrame = False,
     cPingFrequency = 0, cTlsVerifyCert = False, cTlsClientCert = [], cTlsClientKey = [], cTlsSniOverride = [],
     cTlsSniDisable = False, cTlsEchEnable = False, cSocketSoMark = 0, cConnectionMinIdle = 0,
     cConnectionRetryMaxBackoff = 0, cReverseTunnelConnectionRetryMaxBackoff = 3 * second, cHttpProxy = [],
     cHttpProxyLogin = [], cHttpProxyPassword = [], cHttpUpgradeCredentials = [], cHttpHeadersFile = [], cDnsResolver = [],
     cDnsResolverPreferIpv4 = False, cLocalToRemote = [], cRemoteToLocal = [], cWebsocketProtocol = []\<rparr>"

definition some_ltr :: LocalToRemote where
  "some_ltr = \<lparr>ltrProtocol = noProtocol\<lparr>ReverseTcp := Some ()\<rparr>, ltrLocal = [], ltrRemote = ''h'', ltrPort = 1\<rparr>"

theorem reverse_backoff_witness:
  "pauses (drop 2 (StartReverseTunnel (\<lambda>t. Inl EOF) bare_client some_ltr [offline, online, offline, offline, offline])) =
     [second, 2 * second, 3 * second]"
proof -
  have m: "0 < maxDelay bare_client" "maxDelay bare_client < 2 ^ 62" "maxDelay bare_client = 3 * second"
    by (simp_all add: maxDelay_def bare_client_def second_def)
  have "\<not> refused (last [offline, online])" "list_all refused [offline, offline, offline]"
    by (simp_all add: refused_def online_def offline_def)
  from reverse_backoff [OF m(1,2) disjI2 [OF this(1)] this(2), of "\<lambda>t. Inl EOF" some_ltr] show ?thesis
    unfolding m(3) by (simp add: second_def upt_rec numeral_2_eq_2)
qed

end
