(* ===== verification/Pool.thy ===== *)
theory Pool
  imports Traces "HOL-Library.Multiset"
begin

text \<open>
  The pool of idle connections, \<^verbatim>\<open>pkg/client/pool.go\<close>: the goroutine that keeps it filled, any number
  of calls of \<^verbatim>\<open>Get\<close>, and \<^verbatim>\<open>Close\<close>, as steps between which the others may run. Connections are
  numbered in the order they are dialled; dialling itself succeeds or fails as it likes.
\<close>

subsection \<open>State\<close>

datatype maintain_pc = MIdle | MFill | MCheck | MDial | MWait | MGot nat | MDone
datatype get_pc = GStart | GSelect | GGot nat | GEmpty | GDial | GDialled nat
datatype close_pc = COpen | CMarked | CCancelled | CDrain | CDone

record pool =
  conns :: "nat list"
  minIdle :: nat
  cancelled :: bool
  poolClosed :: bool
  maint :: maintain_pc
  getters :: "get_pc list"
  closer :: close_pc
  dialled :: nat
  shut :: "nat list"
  given :: "nat list"

definition NewConnectionPool :: "nat \<Rightarrow> pool" where
  "NewConnectionPool n =
     \<lparr>conns = [], minIdle = n, cancelled = False, poolClosed = False, maint = (if n > 0 then MIdle else MDone), getters = [],
      closer = COpen, dialled = 0, shut = [], given = []\<rparr>"

subsection \<open>Steps\<close>

datatype pool_event = Tick | Fill | Dialled | DialFailed | Retry | PutConn | Quit | GetStep | GetReturned | CloseStep

definition set_maint :: "maintain_pc \<Rightarrow> pool \<Rightarrow> pool" where
  "set_maint pc s = s\<lparr>maint := pc\<rparr>"

definition dial_maint :: "pool \<Rightarrow> pool" where
  "dial_maint s = s\<lparr>maint := MGot (dialled s), dialled := dialled s + 1\<rparr>"

definition put_conn :: "nat \<Rightarrow> pool \<Rightarrow> pool" where
  "put_conn i s = s\<lparr>conns := conns s @ [i], maint := MFill\<rparr>"

definition shut_maint :: "nat \<Rightarrow> maintain_pc \<Rightarrow> pool \<Rightarrow> pool" where
  "shut_maint i pc s = s\<lparr>shut := i # shut s, maint := pc\<rparr>"

text \<open>The loop of the maintaining goroutine. A select with several ready cases may take any of them.\<close>

inductive maintain :: "pool \<Rightarrow> pool_event \<Rightarrow> pool \<Rightarrow> bool" where
  m_quit: "maint s = MIdle \<Longrightarrow> cancelled s \<Longrightarrow> maintain s Quit (set_maint MDone s)"
| m_tick: "maint s = MIdle \<Longrightarrow> maintain s Tick (set_maint MFill s)"
| m_full: "maint s = MFill \<Longrightarrow> \<not> length (conns s) < minIdle s \<Longrightarrow> maintain s Fill (set_maint MIdle s)"
| m_more: "maint s = MFill \<Longrightarrow> length (conns s) < minIdle s \<Longrightarrow> maintain s Fill (set_maint MCheck s)"
| m_check_quit: "maint s = MCheck \<Longrightarrow> cancelled s \<Longrightarrow> maintain s Quit (set_maint MDone s)"
| m_check: "maint s = MCheck \<Longrightarrow> \<not> cancelled s \<Longrightarrow> maintain s Fill (set_maint MDial s)"
| m_fail: "maint s = MDial \<Longrightarrow> maintain s DialFailed (set_maint MWait s)"
| m_wait_quit: "maint s = MWait \<Longrightarrow> cancelled s \<Longrightarrow> maintain s Quit (set_maint MDone s)"
| m_wait: "maint s = MWait \<Longrightarrow> maintain s Retry (set_maint MFill s)"
| m_dial: "maint s = MDial \<Longrightarrow> maintain s Dialled (dial_maint s)"
| m_put_quit: "maint s = MGot i \<Longrightarrow> cancelled s \<Longrightarrow> maintain s Quit (shut_maint i MDone s)"
| m_put: "maint s = MGot i \<Longrightarrow> length (conns s) < minIdle s \<Longrightarrow> maintain s PutConn (put_conn i s)"
| m_put_full: "maint s = MGot i \<Longrightarrow> \<not> length (conns s) < minIdle s \<Longrightarrow> \<not> cancelled s \<Longrightarrow> maintain s PutConn (shut_maint i MFill s)"

text \<open>A call of \<^verbatim>\<open>Get\<close>; the others are before and behind it in the list.\<close>

definition set_getter :: "get_pc list \<Rightarrow> get_pc \<Rightarrow> get_pc list \<Rightarrow> pool \<Rightarrow> pool" where
  "set_getter as pc bs s = s\<lparr>getters := as @ pc # bs\<rparr>"

definition refuse :: "get_pc list \<Rightarrow> get_pc list \<Rightarrow> pool \<Rightarrow> pool" where
  "refuse as bs s = s\<lparr>getters := as @ bs\<rparr>"

definition refuse_shut :: "nat \<Rightarrow> get_pc list \<Rightarrow> get_pc list \<Rightarrow> pool \<Rightarrow> pool" where
  "refuse_shut i as bs s = s\<lparr>getters := as @ bs, shut := i # shut s\<rparr>"

definition give :: "nat \<Rightarrow> get_pc list \<Rightarrow> get_pc list \<Rightarrow> pool \<Rightarrow> pool" where
  "give i as bs s = s\<lparr>getters := as @ bs, given := i # given s\<rparr>"

definition take_conn :: "nat \<Rightarrow> nat list \<Rightarrow> get_pc list \<Rightarrow> get_pc list \<Rightarrow> pool \<Rightarrow> pool" where
  "take_conn i is as bs s = s\<lparr>conns := is, getters := as @ GGot i # bs\<rparr>"

definition dial_get :: "get_pc list \<Rightarrow> get_pc list \<Rightarrow> pool \<Rightarrow> pool" where
  "dial_get as bs s = s\<lparr>getters := as @ GDialled (dialled s) # bs, dialled := dialled s + 1\<rparr>"

inductive GetConn :: "pool \<Rightarrow> pool_event \<Rightarrow> pool \<Rightarrow> bool" where
  g_call: "GetConn s GetStep (s\<lparr>getters := GStart # getters s\<rparr>)"
| g_closed: "getters s = as @ GStart # bs \<Longrightarrow> poolClosed s \<Longrightarrow> GetConn s GetReturned (refuse as bs s)"
| g_start: "getters s = as @ GStart # bs \<Longrightarrow> \<not> poolClosed s \<Longrightarrow> GetConn s GetStep (set_getter as GSelect bs s)"
| g_take: "getters s = as @ GSelect # bs \<Longrightarrow> conns s = i # is \<Longrightarrow> GetConn s GetStep (take_conn i is as bs s)"
| g_empty: "getters s = as @ GSelect # bs \<Longrightarrow> conns s = [] \<Longrightarrow> GetConn s GetStep (set_getter as GEmpty bs s)"
| g_got_closed: "getters s = as @ GGot i # bs \<Longrightarrow> poolClosed s \<Longrightarrow> GetConn s GetReturned (refuse_shut i as bs s)"
| g_got: "getters s = as @ GGot i # bs \<Longrightarrow> \<not> poolClosed s \<Longrightarrow> GetConn s GetReturned (give i as bs s)"
| g_empty_closed: "getters s = as @ GEmpty # bs \<Longrightarrow> poolClosed s \<Longrightarrow> GetConn s GetReturned (refuse as bs s)"
| g_empty_dial: "getters s = as @ GEmpty # bs \<Longrightarrow> \<not> poolClosed s \<Longrightarrow> GetConn s GetStep (set_getter as GDial bs s)"
| g_dial_fail: "getters s = as @ GDial # bs \<Longrightarrow> GetConn s GetReturned (refuse as bs s)"
| g_dial: "getters s = as @ GDial # bs \<Longrightarrow> GetConn s GetStep (dial_get as bs s)"
| g_dialled_closed: "getters s = as @ GDialled i # bs \<Longrightarrow> poolClosed s \<Longrightarrow> GetConn s GetReturned (refuse_shut i as bs s)"
| g_dialled: "getters s = as @ GDialled i # bs \<Longrightarrow> \<not> poolClosed s \<Longrightarrow> GetConn s GetReturned (give i as bs s)"

inductive ClosePool :: "pool \<Rightarrow> pool_event \<Rightarrow> pool \<Rightarrow> bool" where
  c_mark: "closer s = COpen \<Longrightarrow> ClosePool s CloseStep (s\<lparr>poolClosed := True, closer := CMarked\<rparr>)"
| c_cancel: "closer s = CMarked \<Longrightarrow> ClosePool s CloseStep (s\<lparr>cancelled := True, closer := CCancelled\<rparr>)"
| c_wait: "closer s = CCancelled \<Longrightarrow> maint s = MDone \<Longrightarrow> ClosePool s CloseStep (s\<lparr>closer := CDrain\<rparr>)"
| c_drain: "closer s = CDrain \<Longrightarrow> conns s = i # is \<Longrightarrow> ClosePool s CloseStep (s\<lparr>conns := is, shut := i # shut s\<rparr>)"
| c_done: "closer s = CDrain \<Longrightarrow> conns s = [] \<Longrightarrow> ClosePool s CloseStep (s\<lparr>closer := CDone\<rparr>)"

inductive pool_step :: "pool \<Rightarrow> pool_event \<Rightarrow> pool \<Rightarrow> bool" where
  step_maintain: "maintain s e t \<Longrightarrow> pool_step s e t"
| step_get: "GetConn s e t \<Longrightarrow> pool_step s e t"
| step_close: "ClosePool s e t \<Longrightarrow> pool_step s e t"

subsection \<open>Every connection is in one place\<close>

fun maint_holds :: "maintain_pc \<Rightarrow> nat list" where
  "maint_holds (MGot i) = [i]"
| "maint_holds _ = []"

fun get_holds :: "get_pc \<Rightarrow> nat list" where
  "get_holds (GGot i) = [i]"
| "get_holds (GDialled i) = [i]"
| "get_holds _ = []"

fun adding :: "maintain_pc \<Rightarrow> bool" where
  "adding MCheck \<longleftrightarrow> True"
| "adding MDial \<longleftrightarrow> True"
| "adding (MGot i) \<longleftrightarrow> True"
| "adding _ \<longleftrightarrow> False"

definition places :: "pool \<Rightarrow> nat multiset" where
  "places s = mset (conns s) + mset (shut s) + mset (given s) + mset (maint_holds (maint s)) +
     mset (concat (map get_holds (getters s)))"

definition pool_inv :: "pool \<Rightarrow> bool" where
  "pool_inv s \<longleftrightarrow> length (conns s) \<le> minIdle s \<and> places s = mset [0..<dialled s] \<and>
     (closer s \<in> {CDrain, CDone} \<longrightarrow> maint s = MDone) \<and> (closer s = CDone \<longrightarrow> conns s = []) \<and>
     (adding (maint s) \<longrightarrow> length (conns s) < minIdle s)"

lemmas pool_defs = set_maint_def dial_maint_def put_conn_def shut_maint_def set_getter_def refuse_def refuse_shut_def give_def
  take_conn_def dial_get_def

lemma pool_inv_start: "pool_inv (NewConnectionPool n)"
  by (simp add: pool_inv_def NewConnectionPool_def places_def)

lemma maintain_inv: "maintain s e t \<Longrightarrow> pool_inv s \<Longrightarrow> pool_inv t"
  by (induction rule: maintain.induct) (auto simp: pool_inv_def places_def pool_defs)

lemma GetConn_inv: "GetConn s e t \<Longrightarrow> pool_inv s \<Longrightarrow> pool_inv t"
  by (induction rule: GetConn.induct) (auto simp: pool_inv_def places_def pool_defs)

lemma ClosePool_inv: "ClosePool s e t \<Longrightarrow> pool_inv s \<Longrightarrow> pool_inv t"
  by (induction rule: ClosePool.induct) (auto simp: pool_inv_def places_def)

lemma pool_step_minIdle: "pool_step s e t \<Longrightarrow> minIdle t = minIdle s"
  by (erule pool_step.cases) (auto elim!: maintain.cases GetConn.cases ClosePool.cases simp: pool_defs)

lemma pool_step_inv: "pool_step s e t \<Longrightarrow> pool_inv s \<Longrightarrow> pool_inv t"
  by (erule pool_step.cases) (auto intro: maintain_inv GetConn_inv ClosePool_inv)

interpretation pl: invariant pool_step "\<lambda>s. pool_inv s \<and> minIdle s = n" for n
  by unfold_locales (auto intro: pool_step_inv simp: pool_step_minIdle)

lemma closed_step: "poolClosed s \<and> given s = g \<Longrightarrow> pool_step s e t \<Longrightarrow> poolClosed t \<and> given t = g"
  by (erule pool_step.cases) (auto elim!: maintain.cases GetConn.cases ClosePool.cases simp: pool_defs)

interpretation pc: invariant pool_step "\<lambda>s. poolClosed s \<and> given s = g" for g
  by unfold_locales (rule closed_step)

lemma closed_gives_nothing: "run pool_step s es t \<Longrightarrow> poolClosed s \<Longrightarrow> given t = given s"
  using pc.inv_run by blast

text \<open>The maintaining goroutine never has to throw a fresh connection away because the pool is full.\<close>

lemma no_surplus: "pool_inv s \<Longrightarrow> maint s = MGot i \<Longrightarrow> length (conns s) < minIdle s"
  by (auto simp: pool_inv_def)

text \<open>C15. In every interleaving of the maintaining goroutine, any number of calls of \<^verbatim>\<open>Get\<close> and \<^verbatim>\<open>Close\<close>, the pool
  never holds more than \<^verbatim>\<open>minIdle\<close> connections, and every connection ever dialled is in exactly one place: idle
  in the pool, in the hands of one goroutine, returned by one call of \<^verbatim>\<open>Get\<close>, or closed. When \<^verbatim>\<open>Close\<close> has
  returned and no call of \<^verbatim>\<open>Get\<close> is under way, nothing leaks: each is closed or was returned, once.
\<close>

theorem pool_conserves:
  assumes "run pool_step (NewConnectionPool n) es s"
  shows "length (conns s) \<le> n \<and> places s = mset [0..<dialled s] \<and>
    (closer s = CDone \<and> getters s = [] \<longrightarrow> conns s = [] \<and> mset (shut s) + mset (given s) = mset [0..<dialled s])"
proof -
  have "minIdle (NewConnectionPool n) = n" by (simp add: NewConnectionPool_def)
  with pl.inv_run [OF assms] pool_inv_start have "pool_inv s \<and> minIdle s = n" by blast
  then show ?thesis by (auto simp: pool_inv_def places_def)
qed

lemma fill_one:
  assumes "maint s = MFill" "\<not> cancelled s" "length (conns s) < minIdle s"
  shows "run maintain s [Fill, Fill, Dialled, PutConn]
    (s\<lparr>dialled := dialled s + 1, conns := conns s @ [dialled s], maint := MFill\<rparr>)"
proof -
  let ?c = "set_maint MCheck s" and ?d = "set_maint MDial (set_maint MCheck s)"
  have "maintain s Fill ?c" using assms by (intro m_more)
  moreover have "maintain ?c Fill ?d" using assms by (intro m_check) (simp_all add: pool_defs)
  moreover have "maintain ?d Dialled (dial_maint ?d)" by (intro m_dial) (simp add: pool_defs)
  moreover have "maintain (dial_maint ?d) PutConn (put_conn (dialled s) (dial_maint ?d))"
    using assms by (intro m_put) (simp_all add: pool_defs)
  ultimately have "run maintain s [Fill, Fill, Dialled, PutConn] (put_conn (dialled s) (dial_maint ?d))"
    by (meson run_Cons run_single)
  then show ?thesis by (simp add: pool_defs)
qed

lemma maintain_run: "run maintain s es t \<Longrightarrow> run pool_step s es t"
  by (induction rule: run.induct) (auto intro: run.intros step_maintain)

text \<open>A pool of one that is filled once: the goroutine wakes up, dials connection 0 and stores it.\<close>

definition filled_once :: pool where
  "filled_once = (NewConnectionPool 1)\<lparr>maint := MFill, conns := [0], dialled := 1\<rparr>"

lemma woken: "run pool_step (NewConnectionPool 1) [Tick] (set_maint MFill (NewConnectionPool 1))"
  by (intro run_single step_maintain m_tick) (simp add: NewConnectionPool_def)

lemma filled_once_run: "run pool_step (NewConnectionPool 1) [Tick, Fill, Fill, Dialled, PutConn] filled_once"
  using run_trans [OF maintain_run [OF fill_one] woken] by (simp add: pool_defs NewConnectionPool_def filled_once_def)

theorem pool_conserves_witness: "length (conns filled_once) \<le> 1 \<and> places filled_once = mset [0..<dialled filled_once]"
  using pool_conserves [OF filled_once_run] by blast

subsection \<open>The fill loop ends\<close>

definition fill_left :: "pool \<Rightarrow> nat" where
  "fill_left s = (let k = 4 * (minIdle s - length (conns s)) in
     case maint s of MFill \<Rightarrow> k + 1 | MCheck \<Rightarrow> k | MDial \<Rightarrow> k - 1 | MGot i \<Rightarrow> k - 2 | _ \<Rightarrow> 0)"

lemma fill_step:
  "maintain s e t \<Longrightarrow> pool_inv s \<Longrightarrow> e \<in> {Fill, Dialled, PutConn} \<Longrightarrow> fill_left t < fill_left s"
  by (induction rule: maintain.induct) (auto simp: pool_inv_def fill_left_def pool_defs)

lemma fill_run:
  "run maintain s es t \<Longrightarrow> pool_inv s \<Longrightarrow> set es \<subseteq> {Fill, Dialled, PutConn} \<Longrightarrow>
   pool_inv t \<and> length es + fill_left t \<le> fill_left s"
proof (induction rule: run.induct)
  case (run_snoc s es t e u)
  then have "pool_inv t" "length es + fill_left t \<le> fill_left s" "e \<in> {Fill, Dialled, PutConn}" by auto
  with fill_step [OF run_snoc.hyps(2)] maintain_inv [OF run_snoc.hyps(2)] show ?case by simp
qed simp

lemma fill_reaches:
  "maint s = MFill \<Longrightarrow> \<not> cancelled s \<Longrightarrow> length (conns s) + k = minIdle s \<Longrightarrow>
   \<exists>es t. run maintain s es t \<and> set es \<subseteq> {Fill, Dialled, PutConn} \<and> maint t = MIdle \<and> length (conns t) = minIdle s"
proof (induction k arbitrary: s)
  case 0
  then have "run maintain s [Fill] (set_maint MIdle s)" by (intro run_single m_full) auto
  with 0 show ?case by (intro exI [of _ "[Fill]"] exI [of _ "set_maint MIdle s"]) (simp add: set_maint_def)
next
  case (Suc k)
  let ?u = "s\<lparr>dialled := dialled s + 1, conns := conns s @ [dialled s], maint := MFill\<rparr>"
  from Suc.IH [of ?u] Suc.prems obtain es t where
    "run maintain ?u es t" "set es \<subseteq> {Fill, Dialled, PutConn}" "maint t = MIdle" "length (conns t) = minIdle s"
    by auto
  with run_trans [OF _ fill_one [of s]] Suc.prems show ?case
    by (intro exI [of _ "[Fill, Fill, Dialled, PutConn] @ es"] exI [of _ t]) auto
qed

text \<open>C21. The loop that fills the pool ends. While dials succeed and nobody takes a connection, it makes at most four
  steps for each missing connection and one to leave; and unless the pool is being closed it does get there, with
  exactly \<^verbatim>\<open>minIdle\<close> idle connections, waiting for the next tick.
\<close>

theorem pool_fill_terminates:
  assumes "run pool_step (NewConnectionPool n) es s" "maint s = MFill"
  shows "(\<forall>fs t. run maintain s fs t \<and> set fs \<subseteq> {Fill, Dialled, PutConn} \<longrightarrow> length fs \<le> 4 * (n - length (conns s)) + 1) \<and>
    (\<not> cancelled s \<longrightarrow> (\<exists>fs t. run maintain s fs t \<and> set fs \<subseteq> {Fill, Dialled, PutConn} \<and>
       maint t = MIdle \<and> length (conns t) = n))"
proof -
  have "minIdle (NewConnectionPool n) = n" by (simp add: NewConnectionPool_def)
  with pl.inv_run [OF assms(1)] pool_inv_start have inv: "pool_inv s" "minIdle s = n" by blast+
  then obtain k where k: "length (conns s) + k = minIdle s" unfolding pool_inv_def using le_Suc_ex by metis
  have "fill_left s = 4 * (n - length (conns s)) + 1" using inv(2) assms(2) by (simp add: fill_left_def)
  with fill_run [OF _ inv(1)] fill_reaches [OF assms(2) _ k] inv(2) show ?thesis by fastforce
qed

theorem pool_fill_terminates_witness:
  "\<exists>fs t. run maintain (set_maint MFill (NewConnectionPool 1)) fs t \<and> set fs \<subseteq> {Fill, Dialled, PutConn} \<and>
     maint t = MIdle \<and> length (conns t) = 1"
  using pool_fill_terminates [OF woken] by (simp add: set_maint_def NewConnectionPool_def)

end
