(* ===== verification/Cert_Reload.thy ===== *)
theory Cert_Reload
  imports Go_IO
begin

text \<open>
  Hot reloading of TLS certificates: \<^verbatim>\<open>CertReloader\<close> of \<^verbatim>\<open>pkg/server/tls_reloader.go\<close> and its twin
  \<^verbatim>\<open>clientCertReloader\<close> of \<^verbatim>\<open>pkg/client/client.go\<close>. Times count from the zero time, so that \<^verbatim>\<open>IsZero\<close> is the test
  for 0. What the files are at a moment (their modification times, and what loading the pair gives) is an
  argument of each operation.
\<close>

subsection \<open>The files\<close>

record 'c disk =
  statTime :: "string \<Rightarrow> int option"
  loadX509KeyPair :: "string \<Rightarrow> string \<Rightarrow> go_error + 'c"

subsection \<open>The server's reloader\<close>

record 'c CertReloader =
  certFile :: string
  keyFile :: string
  cert :: "'c option"

definition Reload :: "'c disk \<Rightarrow> 'c CertReloader \<Rightarrow> (go_error + unit) \<times> 'c CertReloader" where
  "Reload d r = (case loadX509KeyPair d (certFile r) (keyFile r) of
     Inl e \<Rightarrow> (Inl (Errorf (''failed to reload certificate '' @ certFile r @ '' / key '' @ keyFile r)), r)
   | Inr c \<Rightarrow> (Inr (), r\<lparr>cert := Some c\<rparr>))"

definition NewCertReloader :: "'c disk \<Rightarrow> string \<Rightarrow> string \<Rightarrow> go_error + 'c CertReloader" where
  "NewCertReloader d cf kf = (case Reload d \<lparr>certFile = cf, keyFile = kf, cert = None\<rparr> of
     (Inl e, r) \<Rightarrow> Inl e
   | (Inr u, r) \<Rightarrow> Inr r)"

definition GetCertificate :: "'c CertReloader \<Rightarrow> go_error + 'c" where
  "GetCertificate r = (case cert r of None \<Rightarrow> Inl (Errorf ''no TLS certificate loaded'') | Some c \<Rightarrow> Inr c)"

record watch =
  lastCertMod :: int
  lastKeyMod :: int

definition startWatch :: watch where
  "startWatch = \<lparr>lastCertMod = 0, lastKeyMod = 0\<rparr>"

definition WatchFiles :: "'c disk \<Rightarrow> watch \<times> 'c CertReloader \<Rightarrow> watch \<times> 'c CertReloader" where
  "WatchFiles d = (\<lambda>(w, r).
     case (statTime d (certFile r), statTime d (keyFile r)) of
       (Some a, Some b) \<Rightarrow>
         if lastCertMod w = 0 then (\<lparr>lastCertMod = a, lastKeyMod = b\<rparr>, r)
         else if a > lastCertMod w \<or> b > lastKeyMod w then
           (case Reload d r of
              (Inl e, r') \<Rightarrow> (w, r')
            | (Inr u, r') \<Rightarrow> (\<lparr>lastCertMod = a, lastKeyMod = b\<rparr>, r'))
         else (w, r)
     | _ \<Rightarrow> (w, r))"

definition WatchSignals :: "'c disk \<Rightarrow> 'c CertReloader \<Rightarrow> 'c CertReloader" where
  "WatchSignals d r = snd (Reload d r)"

subsection \<open>The client's reloader\<close>

record 'c clientCertReloader =
  clientCertFile :: string
  clientKeyFile :: string
  clientCert :: "'c option"

definition reload :: "'c disk \<Rightarrow> 'c clientCertReloader \<Rightarrow> (go_error + unit) \<times> 'c clientCertReloader" where
  "reload d r = (case loadX509KeyPair d (clientCertFile r) (clientKeyFile r) of
     Inl e \<Rightarrow> (Inl (Errorf ''client cert reload''), r)
   | Inr c \<Rightarrow> (Inr (), r\<lparr>clientCert := Some c\<rparr>))"

definition newClientCertReloader :: "'c disk \<Rightarrow> string \<Rightarrow> string \<Rightarrow> go_error + 'c clientCertReloader" where
  "newClientCertReloader d cf kf = (case reload d \<lparr>clientCertFile = cf, clientKeyFile = kf, clientCert = None\<rparr> of
     (Inl e, r) \<Rightarrow> Inl e
   | (Inr u, r) \<Rightarrow> Inr r)"

definition getClientCertificate :: "'c clientCertReloader \<Rightarrow> go_error + 'c" where
  "getClientCertificate r =
     (case clientCert r of None \<Rightarrow> Inl (Errorf ''no client TLS certificate loaded'') | Some c \<Rightarrow> Inr c)"

definition watchFiles :: "'c disk \<Rightarrow> watch \<times> 'c clientCertReloader \<Rightarrow> watch \<times> 'c clientCertReloader" where
  "watchFiles d = (\<lambda>(w, r).
     case (statTime d (clientCertFile r), statTime d (clientKeyFile r)) of
       (Some a, Some b) \<Rightarrow>
         if lastCertMod w = 0 then (\<lparr>lastCertMod = a, lastKeyMod = b\<rparr>, r)
         else if a > lastCertMod w \<or> b > lastKeyMod w then
           (case reload d r of
              (Inl e, r') \<Rightarrow> (w, r')
            | (Inr u, r') \<Rightarrow> (\<lparr>lastCertMod = a, lastKeyMod = b\<rparr>, r'))
         else (w, r)
     | _ \<Rightarrow> (w, r))"

definition watchSignals :: "'c disk \<Rightarrow> 'c clientCertReloader \<Rightarrow> 'c clientCertReloader" where
  "watchSignals d r = snd (reload d r)"

subsection \<open>What a reloader promises\<close>

text \<open>
  The files changed since the recorded times. The client of the interface sees the file pair of a reloader,
  the certificate it serves, one tick of the file watcher and one signal.
\<close>

definition changed :: "'c disk \<Rightarrow> string \<times> string \<Rightarrow> watch \<Rightarrow> bool" where
  "changed d = (\<lambda>(cf, kf) w. case (statTime d cf, statTime d kf) of
     (Some a, Some b) \<Rightarrow> a > lastCertMod w \<or> b > lastKeyMod w
   | _ \<Rightarrow> False)"

definition loads :: "'c disk \<Rightarrow> string \<times> string \<Rightarrow> go_error + 'c" where
  "loads d = (\<lambda>(cf, kf). loadX509KeyPair d cf kf)"

locale cert_reloader =
  fixes pair_of :: "'r \<Rightarrow> string \<times> string"
    and serves :: "'r \<Rightarrow> go_error + 'c"
    and tick :: "'c disk \<Rightarrow> watch \<times> 'r \<Rightarrow> watch \<times> 'r"
    and hup :: "'c disk \<Rightarrow> 'r \<Rightarrow> 'r"
  assumes tick_pair: "pair_of (snd (tick d (w, r))) = pair_of r"
    and hup_pair: "pair_of (hup d r) = pair_of r"
    and tick_same: "lastCertMod w \<noteq> 0 \<Longrightarrow> \<not> changed d (pair_of r) w \<or> loads d (pair_of r) = Inl e \<Longrightarrow> tick d (w, r) = (w, r)"
    and tick_loads: "lastCertMod w \<noteq> 0 \<Longrightarrow> changed d (pair_of r) w \<Longrightarrow> loads d (pair_of r) = Inr c \<Longrightarrow>
          serves (snd (tick d (w, r))) = Inr c"
    and tick_baseline: "lastCertMod w = 0 \<Longrightarrow> snd (tick d (w, r)) = r"
    and hup_loads: "loads d (pair_of r) = Inr c \<Longrightarrow> serves (hup d r) = Inr c"
    and hup_fails: "loads d (pair_of r) = Inl e \<Longrightarrow> hup d r = r"
begin

text \<open>A reloader that serves a certificate always serves one, and only ones that were loaded.\<close>

lemma tick_serves:
  "serves r = Inr c \<Longrightarrow> \<exists>c'. serves (snd (tick d (w, r))) = Inr c' \<and> (c' = c \<or> loads d (pair_of r) = Inr c')"
proof (cases "lastCertMod w = 0")
  case False
  moreover assume "serves r = Inr c"
  ultimately show ?thesis
    using tick_same [of w d r] tick_loads [of w d r]
    by (cases "changed d (pair_of r) w"; cases "loads d (pair_of r)") auto
qed (use tick_baseline in auto)

lemma hup_serves: "serves r = Inr c \<Longrightarrow> \<exists>c'. serves (hup d r) = Inr c' \<and> (c' = c \<or> loads d (pair_of r) = Inr c')"
  using hup_loads hup_fails by (cases "loads d (pair_of r)") auto

text \<open>A changed pair that cannot be loaded is tried again at each tick, until it can.\<close>

lemma tick_retries:
  "lastCertMod w \<noteq> 0 \<Longrightarrow> \<forall>d \<in> set ds. \<not> changed d (pair_of r) w \<or> (\<exists>e. loads d (pair_of r) = Inl e) \<Longrightarrow>
   fold tick ds (w, r) = (w, r)"
proof (induction ds)
  case (Cons d ds)
  then have "tick d (w, r) = (w, r)" using tick_same [of w d r] by auto
  with Cons show ?case by simp
qed simp

lemma tick_catches_up:
  assumes "lastCertMod w \<noteq> 0" "\<forall>d \<in> set ds. \<not> changed d (pair_of r) w \<or> (\<exists>e. loads d (pair_of r) = Inl e)"
    and "changed d (pair_of r) w" "loads d (pair_of r) = Inr c"
  shows "serves (snd (fold tick (ds @ [d]) (w, r))) = Inr c"
  using tick_retries [OF assms(1,2)] tick_loads [OF assms(1,3,4)] by simp

end

lemmas reload_defs = Reload_def GetCertificate_def WatchFiles_def WatchSignals_def changed_def loads_def
  reload_def getClientCertificate_def watchFiles_def watchSignals_def

interpretation sr: cert_reloader "\<lambda>r. (certFile r, keyFile r)" GetCertificate WatchFiles WatchSignals
  by unfold_locales (auto simp: reload_defs split: option.split sum.split option.splits)

interpretation cr: cert_reloader "\<lambda>r. (clientCertFile r, clientKeyFile r)" getClientCertificate watchFiles watchSignals
  by unfold_locales (auto simp: reload_defs split: option.split sum.split option.splits)

text \<open>C27. The server keeps serving while certificates are renewed. Once the watcher has its baseline, a renewed pair
  that cannot be loaded yet (half written, or with a key that does not fit) leaves the old certificate in place
  however many ticks it lasts, and the first tick at which the changed pair can be loaded makes it the one served.
\<close>

theorem cert_reload_catches_up:
  assumes "lastCertMod w \<noteq> 0" "GetCertificate r = Inr old"
    and "\<forall>d \<in> set ds. \<not> changed d (certFile r, keyFile r) w \<or> (\<exists>e. loads d (certFile r, keyFile r) = Inl e)"
    and "changed d (certFile r, keyFile r) w" "loads d (certFile r, keyFile r) = Inr new"
  shows "GetCertificate (snd (fold WatchFiles ds (w, r))) = Inr old \<and>
    GetCertificate (snd (fold WatchFiles (ds @ [d]) (w, r))) = Inr new"
  using sr.tick_retries [of w ds r] sr.tick_catches_up [of w ds r d new] assms by simp

definition half_written :: "string disk" where
  "half_written = \<lparr>statTime = (\<lambda>f. Some 9), loadX509KeyPair = (\<lambda>c k. Inl UnexpectedEOF)\<rparr>"

definition renewed :: "string disk" where
  "renewed = \<lparr>statTime = (\<lambda>f. Some 9), loadX509KeyPair = (\<lambda>c k. Inr ''new'')\<rparr>"

theorem cert_reload_catches_up_witness:
  "let w = \<lparr>lastCertMod = 5, lastKeyMod = 5\<rparr>; r = \<lparr>certFile = ''c'', keyFile = ''k'', cert = Some ''old''\<rparr> in
   GetCertificate (snd (fold WatchFiles [half_written, half_written] (w, r))) = Inr ''old'' \<and>
   GetCertificate (snd (fold WatchFiles ([half_written, half_written] @ [renewed]) (w, r))) = Inr ''new''"
  unfolding Let_def
  by (rule cert_reload_catches_up)
    (auto simp: GetCertificate_def changed_def loads_def half_written_def renewed_def)

text \<open>The client's certificate is renewed in the same way.\<close>

lemma client_cert_catches_up:
  assumes "lastCertMod w \<noteq> 0"
    and "\<forall>d \<in> set ds. \<not> changed d (clientCertFile r, clientKeyFile r) w \<or>
      (\<exists>e. loads d (clientCertFile r, clientKeyFile r) = Inl e)"
    and "changed d (clientCertFile r, clientKeyFile r) w" "loads d (clientCertFile r, clientKeyFile r) = Inr new"
  shows "getClientCertificate (snd (fold watchFiles (ds @ [d]) (w, r))) = Inr new"
  using cr.tick_catches_up [of w ds r d new] assms by simp

lemma tick_unchanged: "lastCertMod w \<noteq> 0 \<Longrightarrow> \<not> changed d (certFile r, keyFile r) w \<Longrightarrow> WatchFiles d (w, r) = (w, r)"
  using sr.tick_same [of w d r] by blast

lemma ticks_unchanged: "WatchFiles d x = x \<Longrightarrow> (WatchFiles d ^^ n) x = x"
  by (induction n) auto

text \<open>C39. A certificate renewed before the first tick is not noticed. The first tick only records the times it
  finds, so a pair replaced between the initial load and that tick is never loaded by the watcher, however
  often it looks: the server goes on with the certificate it started with until the files change once more.
\<close>

theorem cert_renewed_early_missed:
  assumes "NewCertReloader d0 cf kf = Inr r" "statTime d cf = Some a" "statTime d kf = Some b" "a > 0"
  shows "GetCertificate (snd (fold WatchFiles (replicate n d) (startWatch, r))) = loadX509KeyPair d0 cf kf"
proof -
  have r: "certFile r = cf" "keyFile r = kf" "GetCertificate r = loadX509KeyPair d0 cf kf"
    using assms(1) by (auto simp: NewCertReloader_def Reload_def GetCertificate_def split: sum.splits)
  let ?w = "\<lparr>lastCertMod = a, lastKeyMod = b\<rparr>"
  have "WatchFiles d (startWatch, r) = (?w, r)"
    using assms(2,3) r by (simp add: WatchFiles_def startWatch_def)
  moreover have "WatchFiles d (?w, r) = (?w, r)"
    using assms r by (intro tick_unchanged) (simp_all add: changed_def)
  ultimately have "snd (fold WatchFiles (replicate n d) (startWatch, r)) = r"
    by (cases n) (simp_all add: ticks_unchanged)
  with r show ?thesis by simp
qed

definition initial :: "string disk" where
  "initial = \<lparr>statTime = (\<lambda>f. Some 5), loadX509KeyPair = (\<lambda>c k. Inr ''old'')\<rparr>"

theorem cert_renewed_early_missed_witness:
  "GetCertificate (snd (fold WatchFiles (replicate 100 renewed)
     (startWatch, \<lparr>certFile = ''c'', keyFile = ''k'', cert = Some ''old''\<rparr>))) = Inr ''old''"
  using cert_renewed_early_missed [of initial "''c''" "''k''" "\<lparr>certFile = ''c'', keyFile = ''k'', cert = Some ''old''\<rparr>" renewed 9 9 100]
  by (simp add: NewCertReloader_def Reload_def initial_def renewed_def)

end
