(* ===== verification/Command_Line.thy ===== *)
theory Command_Line
  imports Client_Tunnels Reverse_Client Pool Cert_Reload
begin

text \<open>
  The command, \<^verbatim>\<open>cmd/warpstream/main.go\<close>: how the flags and the configuration file become the configuration
  of a client or of a server, and what is started with it; and the two constructors it calls, \<^verbatim>\<open>NewClient\<close> and
  \<^verbatim>\<open>NewServer\<close>. The third-party flag parser is an argument: a context answers whether a flag was set and what
  its value is, the default included. So are the YAML decoder, the regular expressions and the files; \<open>load\<close>
  stands for \<^verbatim>\<open>loadConfigFile\<close> with the latter two.
\<close>

subsection \<open>Flags and files\<close>

record cli_context =
  IsSet :: "string \<Rightarrow> bool"
  flagString :: "string \<Rightarrow> string"
  flagBool :: "string \<Rightarrow> bool"
  flagUint :: "string \<Rightarrow> u64"
  flagDuration :: "string \<Rightarrow> int"
  flagStringSlice :: "string \<Rightarrow> string list"
  cliArgs :: "string list"

record FullConfig =
  fcMode :: string
  fcLogLvl :: string
  fcNoColor :: bool
  fcClient :: "ClientConfig option"
  fcServer :: "ServerConfig option"

definition loadConfigFile ::
  "(string \<Rightarrow> go_error + string) \<Rightarrow> (string \<Rightarrow> go_error + FullConfig) \<Rightarrow> string \<Rightarrow> go_error + FullConfig" where
  "loadConfigFile readFile yamlUnmarshal path =
     (case readFile path of
        Inl e \<Rightarrow> Inl e
      | Inr data \<Rightarrow> yamlUnmarshal data)"

definition flagExplicitlySet :: "cli_context option \<Rightarrow> string \<Rightarrow> bool" where
  "flagExplicitlySet c name = (case c of None \<Rightarrow> False | Some ctx \<Rightarrow> IsSet ctx name)"

text \<open>Both functions are called with a context and with a configuration, so that the tests for nil do not
  arise. An assignment under a condition is an update with the old value where the condition fails.\<close>

definition applyClientFlagOverrides ::
  "cli_context \<Rightarrow> ClientConfig \<Rightarrow> string \<Rightarrow> (string \<times> string) list \<Rightarrow> ClientConfig" where
  "applyClientFlagOverrides c config serverURL headers =
     (let isset = flagExplicitlySet (Some c) in
      config\<lparr>
        cServerURL := (if serverURL \<noteq> [] then serverURL else cServerURL config),
        cPathPrefix := (if isset ''http-upgrade-path-prefix'' \<or> cPathPrefix config = []
          then flagString c ''http-upgrade-path-prefix'' else cPathPrefix config),
        cJWTSecret := (if isset ''jwt-secret'' \<or> cJWTSecret config = [] then flagString c ''jwt-secret'' else cJWTSecret config),
        cHeaders := (if isset ''header'' \<or> cHeaders config = [] then headers else cHeaders config),
        cMaskFrame := (if isset ''websocket-mask-frame'' then flagBool c ''websocket-mask-frame'' else cMaskFrame config),
        cPingFrequency := (if isset ''websocket-ping-frequency'' \<or> cPingFrequency config = 0
          then flagDuration c ''websocket-ping-frequency'' else cPingFrequency config),
        cTlsVerifyCert := (if isset ''tls-verify-certificate'' then flagBool c ''tls-verify-certificate'' else cTlsVerifyCert config),
        cTlsClientCert := (if isset ''tls-certificate'' \<or> cTlsClientCert config = []
          then flagString c ''tls-certificate'' else cTlsClientCert config),
        cTlsClientKey := (if isset ''tls-private-key'' \<or> cTlsClientKey config = []
          then flagString c ''tls-private-key'' else cTlsClientKey config),
        cTlsSniOverride := (if isset ''tls-sni-override'' \<or> cTlsSniOverride config = []
          then flagString c ''tls-sni-override'' else cTlsSniOverride config),
        cTlsSniDisable := (if isset ''tls-sni-disable'' then flagBool c ''tls-sni-disable'' else cTlsSniDisable config),
        cTlsEchEnable := (if isset ''tls-ech-enable'' then flagBool c ''tls-ech-enable'' else cTlsEchEnable config),
        cSocketSoMark := (if isset ''socket-so-mark'' then ucast (flagUint c ''socket-so-mark'') else cSocketSoMark config),
        cConnectionMinIdle := (if isset ''connection-min-idle''
          then ucast (flagUint c ''connection-min-idle'') else cConnectionMinIdle config),
        cConnectionRetryMaxBackoff := (if isset ''connection-retry-max-backoff'' \<or> cConnectionRetryMaxBackoff config = 0
          then flagDuration c ''connection-retry-max-backoff'' else cConnectionRetryMaxBackoff config),
        cReverseTunnelConnectionRetryMaxBackoff :=
          (if isset ''reverse-tunnel-connection-retry-max-backoff'' \<or> cReverseTunnelConnectionRetryMaxBackoff config = 0
           then flagDuration c ''reverse-tunnel-connection-retry-max-backoff''
           else cReverseTunnelConnectionRetryMaxBackoff config),
        cHttpProxy := (if isset ''http-proxy'' \<or> cHttpProxy config = [] then flagString c ''http-proxy'' else cHttpProxy config),
        cHttpProxyLogin := (if isset ''http-proxy-login'' \<or> cHttpProxyLogin config = []
          then flagString c ''http-proxy-login'' else cHttpProxyLogin config),
        cHttpProxyPassword := (if isset ''http-proxy-password'' \<or> cHttpProxyPassword config = []
          then flagString c ''http-proxy-password'' else cHttpProxyPassword config),
        cHttpUpgradeCredentials := (if isset ''http-upgrade-credentials'' \<or> cHttpUpgradeCredentials config = []
          then flagString c ''http-upgrade-credentials'' else cHttpUpgradeCredentials config),
        cHttpHeadersFile := (if isset ''http-headers-file'' \<or> cHttpHeadersFile config = []
          then flagString c ''http-headers-file'' else cHttpHeadersFile config),
        cDnsResolver := (if isset ''dns-resolver'' \<or> cDnsResolver config = []
          then flagStringSlice c ''dns-resolver'' else cDnsResolver config),
        cDnsResolverPreferIpv4 := (if isset ''dns-resolver-prefer-ipv4''
          then flagBool c ''dns-resolver-prefer-ipv4'' else cDnsResolverPreferIpv4 config),
        cLocalToRemote := (if isset ''local-to-remote'' \<or> cLocalToRemote config = []
          then flagStringSlice c ''local-to-remote'' else cLocalToRemote config),
        cRemoteToLocal := (if isset ''remote-to-local'' \<or> cRemoteToLocal config = []
          then flagStringSlice c ''remote-to-local'' else cRemoteToLocal config),
        cWebsocketProtocol := (if isset ''mode'' \<or> cWebsocketProtocol config = []
          then flagString c ''mode'' else cWebsocketProtocol config)\<rparr>)"

definition applyServerFlagOverrides :: "cli_context \<Rightarrow> ServerConfig \<Rightarrow> string \<Rightarrow> ServerConfig" where
  "applyServerFlagOverrides c config listenAddr =
     (let isset = flagExplicitlySet (Some c) in
      config\<lparr>
        sListenAddr := (if listenAddr \<noteq> [] then listenAddr else sListenAddr config),
        sPathPrefix := (if isset ''http-upgrade-path-prefix'' \<or> sPathPrefix config = []
          then flagString c ''http-upgrade-path-prefix'' else sPathPrefix config),
        sJWTSecret := (if isset ''jwt-secret'' \<or> sJWTSecret config = [] then flagString c ''jwt-secret'' else sJWTSecret config),
        sInsecureNoJWTValidation := (if isset ''insecure-no-jwt-validation''
          then flagBool c ''insecure-no-jwt-validation'' else sInsecureNoJWTValidation config),
        sSocketSoMark := (if isset ''socket-so-mark'' then ucast (flagUint c ''socket-so-mark'') else sSocketSoMark config),
        sWebsocketPingFrequency := (if isset ''websocket-ping-frequency'' \<or> sWebsocketPingFrequency config = 0
          then flagDuration c ''websocket-ping-frequency'' else sWebsocketPingFrequency config),
        sWebsocketMaskFrame := (if isset ''websocket-mask-frame''
          then flagBool c ''websocket-mask-frame'' else sWebsocketMaskFrame config),
        sDnsResolver := (if isset ''dns-resolver'' \<or> sDnsResolver config = []
          then flagStringSlice c ''dns-resolver'' else sDnsResolver config),
        sDnsResolverPreferIpv4 := (if isset ''dns-resolver-prefer-ipv4''
          then flagBool c ''dns-resolver-prefer-ipv4'' else sDnsResolverPreferIpv4 config),
        sRestrictTo := (if isset ''restrict-to'' \<or> sRestrictTo config = []
          then flagStringSlice c ''restrict-to'' else sRestrictTo config),
        sRestrictHttpUpgradePathPrefix :=
          (if isset ''restrict-http-upgrade-path-prefix'' \<or> sRestrictHttpUpgradePathPrefix config = []
           then flagStringSlice c ''restrict-http-upgrade-path-prefix'' else sRestrictHttpUpgradePathPrefix config),
        sRestrictConfig := (if isset ''restrict-config'' \<or> sRestrictConfig config = []
          then flagString c ''restrict-config'' else sRestrictConfig config),
        sTls := (if isset ''tls'' then flagBool c ''tls'' else sTls config),
        sTlsCertificate := (if isset ''tls-certificate'' \<or> sTlsCertificate config = []
          then flagString c ''tls-certificate'' else sTlsCertificate config),
        sTlsPrivateKey := (if isset ''tls-private-key'' \<or> sTlsPrivateKey config = []
          then flagString c ''tls-private-key'' else sTlsPrivateKey config),
        sTlsClientCaCerts := (if isset ''tls-client-ca-certs'' \<or> sTlsClientCaCerts config = []
          then flagString c ''tls-client-ca-certs'' else sTlsClientCaCerts config),
        sHttpProxy := (if isset ''http-proxy'' \<or> sHttpProxy config = [] then flagString c ''http-proxy'' else sHttpProxy config),
        sHttpProxyLogin := (if isset ''http-proxy-login'' \<or> sHttpProxyLogin config = []
          then flagString c ''http-proxy-login'' else sHttpProxyLogin config),
        sHttpProxyPassword := (if isset ''http-proxy-password'' \<or> sHttpProxyPassword config = []
          then flagString c ''http-proxy-password'' else sHttpProxyPassword config),
        sRemoteToLocalServerIdleTimeout :=
          (if isset ''remote-to-local-server-idle-timeout'' \<or> sRemoteToLocalServerIdleTimeout config = 0
           then flagDuration c ''remote-to-local-server-idle-timeout'' else sRemoteToLocalServerIdleTimeout config),
        sWebsocketProtocol := (if isset ''mode'' \<or> sWebsocketProtocol config = []
          then flagString c ''mode'' else sWebsocketProtocol config)\<rparr>)"

subsection \<open>The declared flags\<close>

datatype flag_kind = StringFlag string | BoolFlag | UintFlag u64 | IntFlag int | DurationFlag int | StringSliceFlag

record flag_decl =
  flagName :: string
  flagAliases :: "string list"
  flagKind :: flag_kind
  flagEnv :: "string list"

definition flag :: "string \<Rightarrow> string list \<Rightarrow> flag_kind \<Rightarrow> string list \<Rightarrow> flag_decl" where
  "flag name aliases kind env = \<lparr>flagName = name, flagAliases = aliases, flagKind = kind, flagEnv = env\<rparr>"

definition appFlags :: "flag_decl list" where
  "appFlags = [
     flag ''config'' [] (StringFlag []) [''WARPSTREAM_CONFIG''],
     flag ''no-color'' [] (StringFlag []) [''NO_COLOR''],
     flag ''nb-worker-threads'' [] (IntFlag 0) [''TOKIO_WORKER_THREADS''],
     flag ''log-lvl'' [] (StringFlag ''INFO'') [''WARPSTREAM_LOG_LVL'', ''RUST_LOG'']]"

definition clientFlags :: "flag_decl list" where
  "clientFlags = [
     flag ''local-to-remote'' [''L''] StringSliceFlag [],
     flag ''remote-to-local'' [''R''] StringSliceFlag [],
     flag ''socket-so-mark'' [] (UintFlag 0) [],
     flag ''connection-min-idle'' [''c''] (UintFlag 0) [],
     flag ''connection-retry-max-backoff'' [''connection-retry-max-backoff-sec''] (DurationFlag (5 * 60 * second)) [],
     flag ''reverse-tunnel-connection-retry-max-backoff'' [''reverse-tunnel-connection-retry-max-backoff-sec''] (DurationFlag (1 * second)) [],
     flag ''tls-sni-override'' [] (StringFlag []) [],
     flag ''tls-sni-disable'' [] BoolFlag [],
     flag ''tls-ech-enable'' [] BoolFlag [],
     flag ''tls-verify-certificate'' [] BoolFlag [],
     flag ''http-proxy'' [''p''] (StringFlag []) [''HTTP_PROXY''],
     flag ''http-proxy-login'' [] (StringFlag []) [''WARPSTREAM_HTTP_PROXY_LOGIN''],
     flag ''http-proxy-password'' [] (StringFlag []) [''WARPSTREAM_HTTP_PROXY_PASSWORD''],
     flag ''mode'' [] (StringFlag ''rust'') [''WARPSTREAM_MODE''],
     flag ''jwt-secret'' [] (StringFlag []) [],
     flag ''http-upgrade-path-prefix'' [''prefix'', ''P''] (StringFlag ''v1'') [''WARPSTREAM_HTTP_UPGRADE_PATH_PREFIX''],
     flag ''http-upgrade-credentials'' [] (StringFlag []) [],
     flag ''websocket-ping-frequency'' [''websocket-ping-frequency-sec''] (DurationFlag (30 * second)) [],
     flag ''websocket-mask-frame'' [] BoolFlag [],
     flag ''header'' [''H'', ''http-headers''] StringSliceFlag [],
     flag ''http-headers-file'' [] (StringFlag []) [],
     flag ''tls-certificate'' [] (StringFlag []) [],
     flag ''tls-private-key'' [] (StringFlag []) [],
     flag ''dns-resolver'' [] StringSliceFlag [],
     flag ''dns-resolver-prefer-ipv4'' [] BoolFlag [''WARPSTREAM_DNS_PREFER_IPV4'']]"

definition serverFlags :: "flag_decl list" where
  "serverFlags = [
     flag ''mode'' [] (StringFlag ''rust'') [''WARPSTREAM_MODE''],
     flag ''jwt-secret'' [] (StringFlag []) [],
     flag ''insecure-no-jwt-validation'' [] BoolFlag [],
     flag ''http-upgrade-path-prefix'' [''prefix'', ''P''] (StringFlag ''v1'') [''WARPSTREAM_HTTP_UPGRADE_PATH_PREFIX''],
     flag ''socket-so-mark'' [] (UintFlag 0) [],
     flag ''websocket-ping-frequency'' [''websocket-ping-frequency-sec''] (DurationFlag (30 * second)) [],
     flag ''websocket-mask-frame'' [] BoolFlag [],
     flag ''dns-resolver'' [] StringSliceFlag [],
     flag ''dns-resolver-prefer-ipv4'' [] BoolFlag [''WARPSTREAM_DNS_PREFER_IPV4''],
     flag ''restrict-to'' [] StringSliceFlag [],
     flag ''restrict-http-upgrade-path-prefix'' [''r''] StringSliceFlag [''WARPSTREAM_RESTRICT_HTTP_UPGRADE_PATH_PREFIX''],
     flag ''restrict-config'' [] (StringFlag []) [],
     flag ''tls'' [] BoolFlag [],
     flag ''tls-certificate'' [] (StringFlag []) [],
     flag ''tls-private-key'' [] (StringFlag []) [],
     flag ''tls-client-ca-certs'' [] (StringFlag []) [],
     flag ''http-proxy'' [''p''] (StringFlag []) [''HTTP_PROXY''],
     flag ''http-proxy-login'' [] (StringFlag []) [''WARPSTREAM_HTTP_PROXY_LOGIN''],
     flag ''http-proxy-password'' [] (StringFlag []) [''WARPSTREAM_HTTP_PROXY_PASSWORD''],
     flag ''remote-to-local-server-idle-timeout'' [''remote-to-local-server-idle-timeout-sec''] (DurationFlag (3 * 60 * second)) []]"

text \<open>The documented behaviour of the flag parser: a flag that was not set, by its name, an alias or its
  environment variable, has its declared value, or the zero value of its kind.\<close>

definition default_of :: "flag_decl \<Rightarrow> cli_context \<Rightarrow> bool" where
  "default_of f c \<longleftrightarrow>
     (case flagKind f of
        StringFlag v \<Rightarrow> flagString c (flagName f) = v
      | BoolFlag \<Rightarrow> \<not> flagBool c (flagName f)
      | UintFlag v \<Rightarrow> flagUint c (flagName f) = v
      | IntFlag v \<Rightarrow> True
      | DurationFlag v \<Rightarrow> flagDuration c (flagName f) = v
      | StringSliceFlag \<Rightarrow> flagStringSlice c (flagName f) = [])"

definition answers :: "flag_decl list \<Rightarrow> cli_context \<Rightarrow> bool" where
  "answers fs c \<longleftrightarrow> list_all (\<lambda>f. IsSet c (flagName f) \<or> default_of f c) fs"

subsection \<open>Constructors\<close>

record 'c Client =
  clConfig :: ClientConfig
  clPool :: "pool option"
  clCertReloader :: "'c clientCertReloader option"

definition NewClient :: "'c disk \<Rightarrow> ClientConfig \<Rightarrow> 'c Client" where
  "NewClient d config =
     \<lparr>clConfig = config,
      clPool = (if cConnectionMinIdle config > 0 then Some (NewConnectionPool (unat (cConnectionMinIdle config))) else None),
      clCertReloader =
        (if cTlsClientCert config \<noteq> [] \<and> cTlsClientKey config \<noteq> [] then
           (case newClientCertReloader d (cTlsClientCert config) (cTlsClientKey config) of
              Inl e \<Rightarrow> None
            | Inr r \<Rightarrow> Some r)
         else None)\<rparr>"

record Server =
  srvConfig :: ServerConfig
  srvRules :: "RestrictionsRules option"

definition NewServer ::
  "(string \<Rightarrow> regexp option) \<Rightarrow> (string \<Rightarrow> go_error + RestrictionsRules) \<Rightarrow> ServerConfig \<Rightarrow> Server" where
  "NewServer Compile LoadRestrictions config =
     \<lparr>srvConfig = config,
      srvRules = NewServer_rules Compile
        (if sRestrictConfig config \<noteq> [] then Some (LoadRestrictions (sRestrictConfig config)) else None)
        (sRestrictTo config) (sRestrictHttpUpgradePathPrefix config)\<rparr>"

subsection \<open>The client command\<close>

datatype launched = Forward LocalToRemote | Backward LocalToRemote

datatype client_end = ClientFailed go_error | ClientRuns

text \<open>The tunnels of one list, up to the first argument that cannot be parsed.\<close>

fun launch :: "(string \<Rightarrow> go_error + LocalToRemote) \<Rightarrow> string \<Rightarrow> string list \<Rightarrow> LocalToRemote list \<times> go_error option" where
  "launch parse what [] = ([], None)"
| "launch parse what (arg # args) =
     (case parse arg of
        Inl e \<Rightarrow> ([], Some (Errorf (''failed to parse '' @ what @ '' tunnel '' @ arg)))
      | Inr t \<Rightarrow> (case launch parse what args of (ts, err) \<Rightarrow> (t # ts, err)))"

definition startClient ::
  "(int \<Rightarrow> u64) \<Rightarrow> 'c disk \<Rightarrow> ClientConfig \<Rightarrow> 'c Client \<times> launched list \<times> client_end" where
  "startClient conv d config =
     (let client = NewClient d config in
      case launch (\<lambda>arg. ParseTunnelArg conv arg False) ''local-to-remote'' (cLocalToRemote config) of
        (fs, Some e) \<Rightarrow> (client, map Forward fs, ClientFailed e)
      | (fs, None) \<Rightarrow>
          (case launch (\<lambda>arg. ParseTunnelArg conv arg True) ''remote-to-local'' (cRemoteToLocal config) of
             (rs, Some e) \<Rightarrow> (client, map Forward fs @ map Backward rs, ClientFailed e)
           | (rs, None) \<Rightarrow>
               (client, map Forward fs @ map Backward rs,
                if fs = [] \<and> rs = []
                then ClientFailed (Errorf ''no tunnels specified. Use -L or -R or config file'') else ClientRuns)))"

definition emptyClientConfig :: ClientConfig where
  "emptyClientConfig = \<lparr>cServerURL = [], cPathPrefix = [], cJWTSecret = [], cHeaders = [], cMaskFrame = False,
     cPingFrequency = 0, cTlsVerifyCert = False, cTlsClientCert = [], cTlsClientKey = [], cTlsSniOverride = [],
     cTlsSniDisable = False, cTlsEchEnable = False, cSocketSoMark = 0, cConnectionMinIdle = 0,
     cConnectionRetryMaxBackoff = 0, cReverseTunnelConnectionRetryMaxBackoff = 0, cHttpProxy = [], cHttpProxyLogin = [],
     cHttpProxyPassword = [], cHttpUpgradeCredentials = [], cHttpHeadersFile = [], cDnsResolver = [],
     cDnsResolverPreferIpv4 = False, cLocalToRemote = [], cRemoteToLocal = [], cWebsocketProtocol = []\<rparr>"

definition last_arg :: "cli_context \<Rightarrow> string" where
  "last_arg c = (if length (cliArgs c) \<ge> 1 then cliArgs c ! (length (cliArgs c) - 1) else [])"

definition runClient_config :: "(string \<Rightarrow> go_error + FullConfig) \<Rightarrow> cli_context \<Rightarrow> ClientConfig" where
  "runClient_config load c =
     (let headers = fold add_header_line (flagStringSlice c ''header'') [];
          config = (if flagString c ''config'' \<noteq> [] then
              (case load (flagString c ''config'') of
                 Inl e \<Rightarrow> emptyClientConfig
               | Inr cfg \<Rightarrow> (case fcClient cfg of None \<Rightarrow> emptyClientConfig | Some cc \<Rightarrow> cc))
            else emptyClientConfig) in
      applyClientFlagOverrides c config (last_arg c) headers)"

definition runClient ::
  "(int \<Rightarrow> u64) \<Rightarrow> 'c disk \<Rightarrow> (string \<Rightarrow> go_error + FullConfig) \<Rightarrow> cli_context \<Rightarrow> go_error + 'c Client \<times> launched list \<times> client_end" where
  "runClient conv d load c =
     (let config = runClient_config load c in
      if cServerURL config = [] then Inl (Errorf ''server URL is required'')
      else Inr (startClient conv d config))"

subsection \<open>The server command\<close>

definition emptyServerConfig :: ServerConfig where
  "emptyServerConfig = \<lparr>sListenAddr = [], sPathPrefix = [], sJWTSecret = [], sInsecureNoJWTValidation = False,
     sSocketSoMark = 0, sWebsocketPingFrequency = 0, sWebsocketMaskFrame = False, sDnsResolver = [],
     sDnsResolverPreferIpv4 = False, sRestrictTo = [], sRestrictHttpUpgradePathPrefix = [], sRestrictConfig = [],
     sTls = False, sTlsCertificate = [], sTlsPrivateKey = [], sTlsClientCaCerts = [], sHttpProxy = [],
     sHttpProxyLogin = [], sHttpProxyPassword = [], sRemoteToLocalServerIdleTimeout = 0, sWebsocketProtocol = []\<rparr>"

record server_env =
  seCompile :: "string \<Rightarrow> regexp option"
  seLoadRestrictions :: "string \<Rightarrow> go_error + RestrictionsRules"
  seListen :: "string \<Rightarrow> go_error option"
  seConfigureH2 :: "go_error option"
  seReadCA :: "string \<Rightarrow> go_error option"
  seNewReloader :: "string \<Rightarrow> string \<Rightarrow> go_error option"
  seGenerate :: "go_error option"

definition startServer :: "server_env \<Rightarrow> ServerConfig \<Rightarrow> Server \<times> (go_error + serving)" where
  "startServer env config =
     (NewServer (seCompile env) (seLoadRestrictions env) config,
      StartServer (seListen env) (seConfigureH2 env) (seReadCA env) (seNewReloader env) (seGenerate env) config)"

definition runServer_config :: "(string \<Rightarrow> go_error + FullConfig) \<Rightarrow> cli_context \<Rightarrow> ServerConfig" where
  "runServer_config load c =
     (let config = (if flagString c ''config'' \<noteq> [] then
              (case load (flagString c ''config'') of
                 Inl e \<Rightarrow> emptyServerConfig
               | Inr cfg \<Rightarrow> (case fcServer cfg of None \<Rightarrow> emptyServerConfig | Some sc \<Rightarrow> sc))
            else emptyServerConfig);
          config = applyServerFlagOverrides c config (last_arg c) in
      if sListenAddr config = [] then config\<lparr>sListenAddr := ''ws://0.0.0.0:8080''\<rparr> else config)"

definition runServer ::
  "server_env \<Rightarrow> (string \<Rightarrow> go_error + FullConfig) \<Rightarrow> cli_context \<Rightarrow> Server \<times> (go_error + serving)" where
  "runServer env load c = startServer env (runServer_config load c)"

subsection \<open>Without a command\<close>

datatype 'c app_run =
  ShowHelp | AppError go_error | AppClient "'c Client \<times> launched list \<times> client_end" | AppServer "Server \<times> (go_error + serving)"

definition app_action ::
  "(int \<Rightarrow> u64) \<Rightarrow> 'c disk \<Rightarrow> server_env \<Rightarrow> (string \<Rightarrow> go_error + FullConfig) \<Rightarrow> cli_context \<Rightarrow> 'c app_run" where
  "app_action conv d env load c =
     (if flagString c ''config'' = [] then ShowHelp
      else case load (flagString c ''config'') of
        Inl e \<Rightarrow> AppError e
      | Inr cfg \<Rightarrow>
          (case (fcMode cfg = ''client'', fcClient cfg, fcMode cfg = ''server'', fcServer cfg) of
             (True, Some cc, _, _) \<Rightarrow> AppClient (startClient conv d cc)
           | (_, _, True, Some sc) \<Rightarrow> AppServer (startServer env sc)
           | _ \<Rightarrow> AppError (Errorf ''invalid config file: mode and section mismatch'')))"

subsection \<open>Properties\<close>

lemma launch_all: "launch parse what args = (ts, None) \<longleftrightarrow> map parse args = map Inr ts"
proof (induction args arbitrary: ts)
  case (Cons a args)
  then show ?case
    by (cases "parse a"; cases "launch parse what args"; cases ts) auto
qed auto

text \<open>C31. A client either runs with every tunnel it was asked for, or fails. It keeps running exactly when there is a
  tunnel and all arguments can be parsed, and then it has started precisely the forward tunnels and the
  reverse tunnels of its configuration, each once, in their order.
\<close>

theorem client_starts_all:
  "startClient conv d config = (client, tunnels, ClientRuns) \<longleftrightarrow>
   (\<exists>fs rs. map (\<lambda>a. ParseTunnelArg conv a False) (cLocalToRemote config) = map Inr fs \<and>
      map (\<lambda>a. ParseTunnelArg conv a True) (cRemoteToLocal config) = map Inr rs \<and> fs @ rs \<noteq> [] \<and>
      client = NewClient d config \<and> tunnels = map Forward fs @ map Backward rs)"
proof -
  obtain fs e1 where f: "launch (\<lambda>arg. ParseTunnelArg conv arg False) ''local-to-remote'' (cLocalToRemote config) = (fs, e1)"
    by fastforce
  obtain rs e2 where r: "launch (\<lambda>arg. ParseTunnelArg conv arg True) ''remote-to-local'' (cRemoteToLocal config) = (rs, e2)"
    by fastforce
  have "map (\<lambda>a. ParseTunnelArg conv a False) (cLocalToRemote config) = map Inr xs \<longleftrightarrow> e1 = None \<and> xs = fs" for xs
    using launch_all [of "\<lambda>a. ParseTunnelArg conv a False" "''local-to-remote''" "cLocalToRemote config" xs] f by auto
  moreover have "map (\<lambda>a. ParseTunnelArg conv a True) (cRemoteToLocal config) = map Inr xs \<longleftrightarrow> e2 = None \<and> xs = rs" for xs
    using launch_all [of "\<lambda>a. ParseTunnelArg conv a True" "''remote-to-local''" "cRemoteToLocal config" xs] r by auto
  ultimately show ?thesis
    by (cases e1; cases e2) (auto simp: startClient_def Let_def f r split: if_splits)
qed


definition default_cli :: cli_context where
  "default_cli = \<lparr>IsSet = (\<lambda>n. False),
     flagString = (\<lambda>n. if n = ''http-upgrade-path-prefix'' then ''v1'' else if n = ''mode'' then ''rust'' else []),
     flagBool = (\<lambda>n. False), flagUint = (\<lambda>n. 0),
     flagDuration = (\<lambda>n. if n = ''connection-retry-max-backoff'' then 5 * 60 * second
       else if n = ''reverse-tunnel-connection-retry-max-backoff'' then second
       else if n = ''websocket-ping-frequency'' then 30 * second else 3 * 60 * second),
     flagStringSlice = (\<lambda>n. []), cliArgs = []\<rparr>"


lemma restrict_to_flag:
  "IsSet c ''restrict-to'' \<Longrightarrow> sRestrictTo (runServer_config load c) = flagStringSlice c ''restrict-to''"
  by (simp add: runServer_config_def applyServerFlagOverrides_def flagExplicitlySet_def Let_def)


definition demo_cli :: cli_context where
  "demo_cli = \<lparr>IsSet = (\<lambda>n. n = ''restrict-to''),
     flagString = (\<lambda>n. if n = ''http-upgrade-path-prefix'' then ''v1'' else if n = ''mode'' then ''rust'' else []),
     flagBool = (\<lambda>n. False), flagUint = (\<lambda>n. 0), flagDuration = (\<lambda>n. 0),
     flagStringSlice = (\<lambda>n. if n = ''restrict-to'' then [''h:1''] else []), cliArgs = ['':80'']\<rparr>"

definition demo_server_env :: server_env where
  "demo_server_env = \<lparr>seCompile = demo_compile, seLoadRestrictions = (\<lambda>p. Inl EOF), seListen = (\<lambda>a. None), seConfigureH2 = None,
     seReadCA = (\<lambda>p. None), seNewReloader = (\<lambda>c k. None), seGenerate = None\<rparr>"

lemma demo_cli_config: "runServer_config load demo_cli = default_config\<lparr>sRestrictTo := [''h:1'']\<rparr>"
  by (simp add: runServer_config_def demo_cli_def applyServerFlagOverrides_def flagExplicitlySet_def emptyServerConfig_def
      default_config_def last_arg_def Let_def)


lemma overrides_config_flag:
  "applyServerFlagOverrides (c\<lparr>flagString := (flagString c)(''config'' := x)\<rparr>) config a = applyServerFlagOverrides c config a"
  by (simp add: applyServerFlagOverrides_def flagExplicitlySet_def Let_def cong: if_cong)

text \<open>A configuration file that cannot be read or parsed is ignored. The server then starts as if no file had been
  named, so that restrictions, secrets and certificates which only the file contains are silently absent.
\<close>

theorem server_config_error_ignored:
  assumes "load (flagString c ''config'') = Inl e"
  shows "runServer env load c = runServer env load (c\<lparr>flagString := (flagString c)(''config'' := [])\<rparr>)"
  unfolding runServer_def runServer_config_def overrides_config_flag
  using assms by (simp add: last_arg_def)

theorem server_config_error_ignored_witness:
  "let c = demo_cli\<lparr>flagString := (flagString demo_cli)(''config'' := ''missing.yaml'')\<rparr>; load = (\<lambda>p. Inl EOF) in
   runServer demo_server_env load c = runServer demo_server_env load (c\<lparr>flagString := (flagString c)(''config'' := [])\<rparr>)"
  unfolding Let_def by (rule server_config_error_ignored) simp

end
