(* ===== verification/Caddy.thy ===== *)
theory Caddy
  imports Command_Line
begin

text \<open>
  The Caddy module, \<^verbatim>\<open>pkg/caddy/caddy.go\<close>: the server as a handler inside the Caddy web server. The token
  dispenser of the Caddyfile parser and its durations are third-party code: a dispenser is given by the
  functions the module calls on it, each of which moves it on.
\<close>

subsection \<open>Provisioning\<close>

record WarpStream =
  wsConfig :: ServerConfig
  wsRestrictions :: "RestrictionConfig list"

definition Provision ::
  "(string \<Rightarrow> regexp option) \<Rightarrow> (string \<Rightarrow> go_error + RestrictionsRules) \<Rightarrow> WarpStream \<Rightarrow> WarpStream \<times> Server" where
  "Provision Compile LoadRestrictions w =
     (let w = (if sWebsocketProtocol (wsConfig w) = [] then w\<lparr>wsConfig := (wsConfig w)\<lparr>sWebsocketProtocol := ''rust''\<rparr>\<rparr> else w);
          srv = NewServer Compile LoadRestrictions (wsConfig w);
          srv = (if wsRestrictions w \<noteq> [] then
              srv\<lparr>srvRules := Some ((case srvRules srv of None \<Rightarrow> [] | Some rules \<Rightarrow> rules) @ wsRestrictions w)\<rparr>
            else srv) in
      (w, srv))"

subsection \<open>Requests\<close>

datatype 'g caddy_served = NextHandler | WarpServed "'g served"

definition isH2Tunnel :: "server_request \<Rightarrow> bool" where
  "isH2Tunnel r \<longleftrightarrow> fst (rVersion r) \<ge> 2 \<and> rMethod r = ''POST'' \<and> Get (rHeader r) ''Content-Type'' = ''application/json''"

definition CaddyServeHTTP ::
  "parse_unverified \<Rightarrow> parse_with_claims \<Rightarrow> (string list \<Rightarrow> server_request \<Rightarrow> go_error + 'g) \<Rightarrow>
   WarpStream \<times> Server \<Rightarrow> server_request \<Rightarrow> go_error + conn \<times> byte list \<Rightarrow> 'g caddy_served" where
  "CaddyServeHTTP pu pc gu = (\<lambda>(w, srv) r hijack.
     if \<not> isWebsocket (rHeader r) \<and> \<not> isH2Tunnel r then NextHandler
     else if sPathPrefix (wsConfig w) \<noteq> [] \<and> \<not> HasPrefix (Path (rURL r)) (''/'' @ sPathPrefix (wsConfig w)) then NextHandler
     else WarpServed (ServeHTTP pu pc gu (srvConfig srv) (srvRules srv) r hijack))"

subsection \<open>The Caddyfile\<close>

record 'd dispenser =
  dNext :: "'d \<Rightarrow> bool \<times> 'd"
  dNextBlock :: "'d \<Rightarrow> bool \<times> 'd"
  dVal :: "'d \<Rightarrow> string"
  dNextArg :: "'d \<Rightarrow> bool \<times> 'd"
  dRemainingArgs :: "'d \<Rightarrow> string list \<times> 'd"
  dArgErr :: "'d \<Rightarrow> go_error"
  dErrf :: "'d \<Rightarrow> string \<Rightarrow> go_error"
  caddyParseDuration :: "string \<Rightarrow> go_error + int"

text \<open>A subdirective with one argument.\<close>

definition with_arg ::
  "'d dispenser \<Rightarrow> ('d \<Rightarrow> go_error + ServerConfig) \<Rightarrow> 'd \<Rightarrow> go_error + ServerConfig \<times> 'd" where
  "with_arg D f d = (case dNextArg D d of
     (False, d') \<Rightarrow> Inl (dArgErr D d')
   | (True, d') \<Rightarrow> (case f d' of Inl e \<Rightarrow> Inl e | Inr cfg \<Rightarrow> Inr (cfg, d')))"

definition with_duration ::
  "'d dispenser \<Rightarrow> string \<Rightarrow> (int \<Rightarrow> ServerConfig) \<Rightarrow> 'd \<Rightarrow> go_error + ServerConfig \<times> 'd" where
  "with_duration D what f = with_arg D (\<lambda>d. case caddyParseDuration D (dVal D d) of
     Inl e \<Rightarrow> Inl (dErrf D d (''invalid '' @ what))
   | Inr dur \<Rightarrow> Inr (f dur))"

definition subdirective :: "'d dispenser \<Rightarrow> ServerConfig \<Rightarrow> 'd \<Rightarrow> go_error + ServerConfig \<times> 'd" where
  "subdirective D cfg d =
     (let v = dVal D d in
      if v = ''mode'' then with_arg D (\<lambda>d. Inr (cfg\<lparr>sWebsocketProtocol := dVal D d\<rparr>)) d
      else if v = ''prefix'' then with_arg D (\<lambda>d. Inr (cfg\<lparr>sPathPrefix := TrimPrefix (dVal D d) ''/''\<rparr>)) d
      else if v = ''restrict_config'' then with_arg D (\<lambda>d. Inr (cfg\<lparr>sRestrictConfig := dVal D d\<rparr>)) d
      else if v = ''ping_interval'' then with_duration D v (\<lambda>dur. cfg\<lparr>sWebsocketPingFrequency := dur\<rparr>) d
      else if v = ''idle_timeout'' then with_duration D v (\<lambda>dur. cfg\<lparr>sRemoteToLocalServerIdleTimeout := dur\<rparr>) d
      else if v = ''mask_frame'' then Inr (cfg\<lparr>sWebsocketMaskFrame := True\<rparr>, d)
      else if v = ''restrict_to'' then
        (case dRemainingArgs D d of (args, d') \<Rightarrow> Inr (cfg\<lparr>sRestrictTo := sRestrictTo cfg @ args\<rparr>, d'))
      else Inl (dErrf D d (''unrecognized subdirective '' @ v)))"

partial_function (option) caddy_block ::
  "'d dispenser \<Rightarrow> ServerConfig \<Rightarrow> 'd \<Rightarrow> (go_error + ServerConfig \<times> 'd) option" where
  "caddy_block D cfg d =
     (let (more', d') = dNextBlock D d in
      if \<not> more' then Some (Inr (cfg, d'))
      else let r = subdirective D cfg d' in
        if isl r then Some r
        else caddy_block D (fst (projr r)) (snd (projr r)))"

partial_function (option) UnmarshalCaddyfile ::
  "'d dispenser \<Rightarrow> ServerConfig \<Rightarrow> 'd \<Rightarrow> (go_error + ServerConfig) option" where
  "UnmarshalCaddyfile D cfg d =
     (let (more', d') = dNext D d in
      if \<not> more' then Some (Inr cfg)
      else Option.bind (caddy_block D cfg d') (\<lambda>r.
        if isl r then Some (Inl (projl r))
        else UnmarshalCaddyfile D (fst (projr r)) (snd (projr r))))"

subsection \<open>What the module admits\<close>

lemma Provision_mode: "sWebsocketProtocol (srvConfig (snd (Provision Compile load w))) \<noteq> []"
  by (simp add: Provision_def NewServer_def Let_def)

lemma Provision_config: "srvConfig (snd (Provision Compile load w)) = wsConfig (fst (Provision Compile load w))"
  by (simp add: Provision_def NewServer_def Let_def)

lemma Provision_rules:
  assumes "wsRestrictions w \<noteq> []"
  shows "\<exists>rules. srvRules (snd (Provision Compile load w)) = Some (rules @ wsRestrictions w)"
proof (cases "sWebsocketProtocol (wsConfig w) = []")
  case True
  with assms show ?thesis unfolding Provision_def Let_def by simp
next
  case False
  with assms show ?thesis unfolding Provision_def Let_def by simp
qed


text \<open>A module with one inline restriction that allows the claims of the example, and a request for it.\<close>

definition demo_module :: WarpStream where
  "demo_module = \<lparr>wsConfig = default_config,
     wsRestrictions = [\<lparr>Name = ''inline'', Match = [\<lparr>Any = True, PathPrefix = None, Authorization = None, ClientCommonName = None\<rparr>],
       Allow = [allow_all]\<rparr>]\<rparr>"

definition demo_h2 :: server_request where
  "demo_h2 = demo_request\<lparr>rHeader := [(''Cookie'', [''kx'']), (''Content-Type'', [''application/json''])]\<rparr>"

lemma demo_h2_facts:
  "isH2Tunnel demo_h2" "request_token (rHeader demo_h2) = ''kx''" "\<not> isWebsocket (rHeader demo_h2)"
proof -
  have k: "CanonicalHeaderKey ''Cookie'' = ''Cookie''" "CanonicalHeaderKey ''Content-Type'' = ''Content-Type''"
    by (simp_all add: CanonicalHeaderKey_def is_token_def upper_def lower_def)
  have "TrimSpace [] = []" by (rule TrimSpace_id) simp
  with k show "request_token (rHeader demo_h2) = ''kx''"
    by (simp add: request_token_def Get_def canonical_names demo_h2_def JwtHeaderPrefix_def HasPrefix_def)
  from k show "isH2Tunnel demo_h2" by (simp add: isH2Tunnel_def demo_h2_def demo_request_def Get_def)
  show "\<not> isWebsocket (rHeader demo_h2)"
    by (simp add: isWebsocket_def Get_def canonical_names demo_h2_def)
qed


subsection \<open>The documented block\<close>

text \<open>A prefix is configured with its slash: the handler then serves the paths below it.\<close>

lemma prefix_directive:
  assumes "dVal D d = ''prefix''" "dNextArg D d = (True, d')" "dVal D d' = ''/'' @ p"
  shows "subdirective D cfg d = Inr (cfg\<lparr>sPathPrefix := p\<rparr>, d')"
  using assms by (simp add: subdirective_def with_arg_def TrimPrefix_def HasPrefix_def Let_def)

lemma unknown_directive:
  assumes "dVal D d \<notin> {''mode'', ''prefix'', ''restrict_config'', ''ping_interval'', ''idle_timeout'', ''mask_frame'', ''restrict_to''}"
  shows "subdirective D cfg d = Inl (dErrf D d (''unrecognized subdirective '' @ dVal D d))"
  using assms by (simp add: subdirective_def Let_def)

text \<open>A failing subdirective ends the parse with its error, and a block that ends gives the configuration so far.\<close>

lemma caddy_block_steps:
  "dNextBlock D d = (False, d') \<Longrightarrow> caddy_block D cfg d = Some (Inr (cfg, d'))"
  "dNextBlock D d = (True, d') \<Longrightarrow> subdirective D cfg d' = Inl e \<Longrightarrow> caddy_block D cfg d = Some (Inl e)"
  "dNextBlock D d = (True, d') \<Longrightarrow> subdirective D cfg d' = Inr (cfg', d'') \<Longrightarrow> caddy_block D cfg d = caddy_block D cfg' d''"
  by (simp_all add: caddy_block.simps [of D cfg d])

text \<open>The parser ends when its dispenser does: each token is given out once.\<close>

definition advances :: "'d dispenser \<Rightarrow> ('d \<Rightarrow> nat) \<Rightarrow> bool" where
  "advances D left' \<longleftrightarrow>
     (\<forall>d. left' (snd (dNext D d)) \<le> left' d \<and> (fst (dNext D d) \<longrightarrow> left' (snd (dNext D d)) < left' d) \<and>
        left' (snd (dNextBlock D d)) \<le> left' d \<and> (fst (dNextBlock D d) \<longrightarrow> left' (snd (dNextBlock D d)) < left' d) \<and>
        left' (snd (dNextArg D d)) \<le> left' d \<and> left' (snd (dRemainingArgs D d)) \<le> left' d)"

lemma with_arg_left:
  assumes "advances D left'" "with_arg D f d = Inr (cfg, d')"
  shows "left' d' \<le> left' d"
proof -
  have "d' = snd (dNextArg D d)" using assms(2) by (auto simp: with_arg_def split: prod.splits bool.splits sum.splits)
  then show ?thesis using assms(1) by (simp add: advances_def)
qed

lemma subdirective_left:
  assumes "advances D left'" "subdirective D cfg d = Inr (cfg', d')"
  shows "left' d' \<le> left' d"
proof (cases "dVal D d = ''restrict_to''")
  case True
  then have "d' = snd (dRemainingArgs D d)" using assms(2) by (auto simp: subdirective_def Let_def split: prod.splits)
  then show ?thesis using assms(1) by (simp add: advances_def)
next
  case False
  then have "d' = d \<or> (\<exists>f. with_arg D f d = Inr (cfg', d'))"
    using assms(2) unfolding subdirective_def with_duration_def Let_def by (simp split: if_splits) blast+
  then show ?thesis using with_arg_left [OF assms(1)] by blast
qed

lemma caddy_block_returns:
  assumes "advances D left'"
  shows "\<exists>r. caddy_block D cfg d = Some r \<and> (\<forall>x. r = Inr x \<longrightarrow> left' (snd x) \<le> left' d)"
proof (induction "left' d" arbitrary: cfg d rule: less_induct)
  case less
  obtain b d1 where nb: "dNextBlock D d = (b, d1)" by fastforce
  with assms have d1: "left' d1 \<le> left' d" "b \<Longrightarrow> left' d1 < left' d"
    unfolding advances_def by (metis fst_conv snd_conv)+
  show ?case
  proof (cases b)
    case True
    show ?thesis
    proof (cases "subdirective D cfg d1")
      case (Inl e)
      with nb True show ?thesis by (simp add: caddy_block_steps(2))
    next
      case (Inr x)
      then have "left' (snd x) < left' d"
        using subdirective_left [OF assms, of cfg d1 "fst x" "snd x"] d1(2) [OF True] by simp
      with less [of "snd x" "fst x"] nb True Inr show ?thesis
        using caddy_block_steps(3) [of D d d1 cfg "fst x" "snd x"] by (auto intro: order_trans less_imp_le)
    qed
  qed (use nb d1 in \<open>simp add: caddy_block_steps(1)\<close>)
qed

lemma UnmarshalCaddyfile_returns:
  assumes "advances D left'"
  shows "\<exists>r. UnmarshalCaddyfile D cfg d = Some r"
proof (induction "left' d" arbitrary: cfg d rule: less_induct)
  case less
  obtain b d1 where n: "dNext D d = (b, d1)" by fastforce
  show ?case
  proof (cases b)
    case True
    with assms n have d1: "left' d1 < left' d" unfolding advances_def by (metis fst_conv snd_conv)
    obtain r where r: "caddy_block D cfg d1 = Some r" "\<And>x. r = Inr x \<Longrightarrow> left' (snd x) \<le> left' d1"
      using caddy_block_returns [OF assms] by metis
    show ?thesis
    proof (cases r)
      case (Inr x)
      with r(2) d1 have "left' (snd x) < left' d" by fastforce
      with less [of "snd x" "fst x"] n True r(1) Inr show ?thesis by (simp add: UnmarshalCaddyfile.simps [of D cfg d])
    qed (use n True r in \<open>simp add: UnmarshalCaddyfile.simps [of D cfg d]\<close>)
  qed (use n in \<open>simp add: UnmarshalCaddyfile.simps [of D cfg d]\<close>)
qed

end
